theory Spec2Isabelle
  imports Complex_Main "HOL-Library.Multiset"
begin

section \<open>Text\<close>

text \<open>
  The text of the identifier dedup, file names and column names are modelled as
  \<^typ>\<open>string\<close>, with the white space and the case mappings of ASCII; column names
  that are not ASCII are given by their UTF-8 bytes. The keywords, brand names and rule
  terms of the brand matching are lists of Unicode code points, and what Python's
  \<open>re\<close> and \<open>str\<close> do with a code point is a parameter there.
\<close>

definition is_space :: "char \<Rightarrow> bool" where
  \<comment> \<open>\<open>str.isspace\<close> and the regex class \<open>\s\<close>: tab, newline, VT, FF, CR, FS, GS, RS, US, space\<close>
  "is_space c = (let n = (of_char c :: nat) in (9 \<le> n \<and> n \<le> 13) \<or> (28 \<le> n \<and> n \<le> 32))"

definition upper_char :: "char \<Rightarrow> char" where
  "upper_char c = (let n = (of_char c :: nat) in
     if 97 \<le> n \<and> n \<le> 122 then char_of (n - 32) else c)"

definition lower_char :: "char \<Rightarrow> char" where
  \<comment> \<open>lower case of an ASCII letter: used on file names, to test their suffix\<close>
  "lower_char c = (let n = (of_char c :: nat) in
     if 65 \<le> n \<and> n \<le> 90 then char_of (n + 32) else c)"

definition upper :: "string \<Rightarrow> string" where
  "upper s = map upper_char s"

definition lower :: "string \<Rightarrow> string" where
  "lower s = map lower_char s"

definition strip :: "string \<Rightarrow> string" where
  \<comment> \<open>\<open>str.strip()\<close>: white space removed at both ends\<close>
  "strip s = rev (dropWhile is_space (rev (dropWhile is_space s)))"

fun join_sp :: "string list \<Rightarrow> string" where
  \<comment> \<open>\<open>' '.join(xs)\<close>\<close>
  "join_sp [] = []"
| "join_sp [x] = x"
| "join_sp (x # y # ys) = x @ CHR '' '' # join_sp (y # ys)"

fun dict_fromkeys :: "'a list \<Rightarrow> 'a list \<Rightarrow> 'a list" where
  \<comment> \<open>the keys of \<open>dict.fromkeys(xs)\<close>, in insertion order; the first argument holds the
      keys inserted so far\<close>
  "dict_fromkeys d [] = d"
| "dict_fromkeys d (k # ks) = dict_fromkeys (if k \<in> set d then d else d @ [k]) ks"

section \<open>Identifier dedup (tab4)\<close>

definition is_sep :: "char \<Rightarrow> bool" where
  \<comment> \<open>the class \<open>[\n\s,;\t]\<close>\<close>
  "is_sep c = (c = CHR 0x0A \<or> is_space c \<or> c = CHR '','' \<or> c = CHR '';'' \<or> c = CHR 0x09)"

function re_split :: "string \<Rightarrow> string list" where
  \<comment> \<open>\<open>re.split(r'[\n\s,;\t]+', s)\<close>: the pieces between maximal runs of separators\<close>
  "re_split s =
     (let tok = takeWhile (\<lambda>c. \<not> is_sep c) s;
          rest = dropWhile (\<lambda>c. \<not> is_sep c) s
      in if rest = [] then [tok] else tok # re_split (dropWhile is_sep rest))"
  by pat_completeness auto
termination
proof (relation "measure length")
  show "wf (measure length)" by simp
next
  fix s :: string and tok rest
  assume r: "rest = dropWhile (\<lambda>c. \<not> is_sep c) s" and ne: "rest \<noteq> []"
  from r ne have "dropWhile (\<lambda>c. \<not> is_sep c) s \<noteq> []" by simp
  then obtain c cs where rc: "dropWhile (\<lambda>c. \<not> is_sep c) s = c # cs"
    by (meson list.exhaust)
  have "is_sep (hd (dropWhile (\<lambda>c. \<not> is_sep c) s))"
    using hd_dropWhile[of "\<lambda>c. \<not> is_sep c" s] rc by simp
  then have "is_sep c" by (simp add: rc)
  then have "length (dropWhile is_sep (c # cs)) \<le> length cs"
    by (simp add: length_dropWhile_le)
  moreover have "length (c # cs) \<le> length s"
    using length_dropWhile_le[of "\<lambda>c. \<not> is_sep c" s] rc by simp
  ultimately show "(dropWhile is_sep rest, s) \<in> measure length"
    using r rc by simp
qed

declare re_split.simps [simp del]

record asin_results =
  original_count :: nat
  unique_count :: nat
  unique_asins :: "string list"

datatype dedup_error = EmptyInput

definition asin_dedup :: "string \<Rightarrow> dedup_error + asin_results" where
  \<comment> \<open>the button handler: \<open>Inr\<close> is what is stored in the session state, \<open>Inl\<close> is the
      branch that only shows the error and stores nothing\<close>
  "asin_dedup asin_input =
     (if strip asin_input \<noteq> [] then
        let asin_list = re_split (strip asin_input);
            asin_list = map (\<lambda>asin. upper (strip asin)) (filter (\<lambda>asin. strip asin \<noteq> []) asin_list);
            unique = dict_fromkeys [] asin_list
        in Inr \<lparr>original_count = length asin_list, unique_count = length unique,
                unique_asins = unique\<rparr>
      else Inl EmptyInput)"

text \<open>
  A token as the dedup stores it: not empty, free of separators and in upper case.
\<close>

definition clean_token :: "string \<Rightarrow> bool" where
  "clean_token t = (t \<noteq> [] \<and> (\<forall>c \<in> set t. \<not> is_sep c) \<and> upper t = t)"

section \<open>Tables\<close>

text \<open>
  A pandas DataFrame is a list of column names and a list of rows, each row holding one
  cell per column. A cell is missing (NaN), a number or text. Numbers are exact
  rationals: the rounding of float64 is not part of the model. The text of a cell is a
  list of characters of any type \<open>'c\<close>: bytes (\<^typ>\<open>char\<close>) for the uploads and the
  merges, where text is only compared, and Unicode code points (\<^typ>\<open>nat\<close>) for the
  brand matching, which classifies characters.
\<close>

datatype 'c pycell = Null | Num rat | Txt "'c list"

record 'c pyframe =
  columns :: "string list"
  rows :: "'c pycell list list"

type_synonym cell = "char pycell"

type_synonym frame = "char pyframe"

datatype py_error = KeyError | IndexError | ValueError | AttributeError

definition kw_col :: string where
  \<comment> \<open>the keyword column of the product table (UTF-8 bytes of its name)\<close>
  "kw_col = [CHR 0xE5, CHR 0x85, CHR 0xB3, CHR 0xE9, CHR 0x94, CHR 0xAE, CHR 0xE8, CHR 0xAF, CHR 0x8D]"

definition vol_col :: string where
  \<comment> \<open>the monthly search volume column\<close>
  "vol_col = [CHR 0xE6, CHR 0x9C, CHR 0x88, CHR 0xE6, CHR 0x90, CHR 0x9C, CHR 0xE7, CHR 0xB4, CHR 0xA2,
              CHR 0xE9, CHR 0x87, CHR 0x8F]"

definition brand_col :: string where
  \<comment> \<open>the brand name column of the brand table, of the rules and of the match result\<close>
  "brand_col = [CHR 0xE5, CHR 0x93, CHR 0x81, CHR 0xE7, CHR 0x89, CHR 0x8C, CHR 0xE5, CHR 0x90, CHR 0x8D,
                CHR 0xE7, CHR 0xA7, CHR 0xB0]"

definition rule_kw_col :: string where
  \<comment> \<open>the column of a rule holding its comma-separated terms\<close>
  "rule_kw_col = [CHR 0xE5, CHR 0x8C, CHR 0xB9, CHR 0xE9, CHR 0x85, CHR 0x8D, CHR 0xE5, CHR 0x85, CHR 0xB3,
                  CHR 0xE9, CHR 0x94, CHR 0xAE, CHR 0xE8, CHR 0xAF, CHR 0x8D]"

definition term_col :: string where
  \<comment> \<open>the result column holding the matched term\<close>
  "term_col = [CHR 0xE5, CHR 0x93, CHR 0x81, CHR 0xE7, CHR 0x89, CHR 0x8C]"

definition type_col :: string where
  \<comment> \<open>the result column holding the classification\<close>
  "type_col = [CHR 0xE8, CHR 0xAF, CHR 0x8D, CHR 0xE6, CHR 0x80, CHR 0xA7]"

definition feature_col :: string where
  \<comment> \<open>the empty result column added last\<close>
  "feature_col = [CHR 0xE7, CHR 0x89, CHR 0xB9, CHR 0xE6, CHR 0x80, CHR 0xA7, CHR 0xE5, CHR 0x8F, CHR 0x82,
                  CHR 0xE6, CHR 0x95, CHR 0xB0]"

definition time_col :: string where
  \<comment> \<open>the provenance column of the two merges\<close>
  "time_col = [CHR 0xE6, CHR 0x97, CHR 0xB6, CHR 0xE9, CHR 0x97, CHR 0xB4]"

definition cumsum_col :: string where
  \<comment> \<open>the running sum of the volume\<close>
  "cumsum_col = [CHR 0xE6, CHR 0x9C, CHR 0x88, CHR 0xE6, CHR 0x90, CHR 0x9C, CHR 0xE7, CHR 0xB4, CHR 0xA2,
                 CHR 0xE9, CHR 0x87, CHR 0x8F, CHR 0xE7, CHR 0xB4, CHR 0xAF, CHR 0xE8, CHR 0xAE, CHR 0xA1,
                 CHR 0xE5, CHR 0x92, CHR 0x8C]"

definition share_col :: string where
  \<comment> \<open>the running share of the volume\<close>
  "share_col = [CHR 0xE6, CHR 0x9C, CHR 0x88, CHR 0xE6, CHR 0x90, CHR 0x9C, CHR 0xE7, CHR 0xB4, CHR 0xA2,
                CHR 0xE9, CHR 0x87, CHR 0x8F, CHR 0xE7, CHR 0xB4, CHR 0xAF, CHR 0xE8, CHR 0xAE, CHR 0xA1,
                CHR 0xE5, CHR 0x8D, CHR 0xA0, CHR 0xE6, CHR 0xAF, CHR 0x94]"

definition branded_kws :: string where
  "branded_kws = ''Branded KWs''"

definition non_branded_kws :: string where
  "non_branded_kws = ''Non-Branded KWs''"

definition cell_of :: "string list \<Rightarrow> string \<Rightarrow> 'c pycell list \<Rightarrow> 'c pycell" where
  \<comment> \<open>\<open>row[col]\<close>\<close>
  "cell_of cols col r = (case map_of (zip cols r) col of None \<Rightarrow> Null | Some x \<Rightarrow> x)"

definition column :: "'c pyframe \<Rightarrow> string \<Rightarrow> 'c pycell list" where
  \<comment> \<open>\<open>df[col]\<close>, read\<close>
  "column df col = map (cell_of (columns df) col) (rows df)"

definition set_cell :: "string list \<Rightarrow> string \<Rightarrow> 'c pycell \<Rightarrow> 'c pycell list \<Rightarrow> 'c pycell list" where
  "set_cell cols col v r = map (\<lambda>(c, x). if c = col then v else x) (zip cols r)"

definition set_series :: "'c pyframe \<Rightarrow> string \<Rightarrow> 'c pycell list \<Rightarrow> 'c pyframe" where
  \<comment> \<open>\<open>df[col] = values\<close>: an existing column is overwritten in place, a new one is
      added at the end\<close>
  "set_series df col vs =
     (if col \<in> set (columns df)
      then df\<lparr>rows := map (\<lambda>(r, v). set_cell (columns df) col v r) (zip (rows df) vs)\<rparr>
      else df\<lparr>columns := columns df @ [col], rows := map (\<lambda>(r, v). r @ [v]) (zip (rows df) vs)\<rparr>)"

definition set_column :: "'c pyframe \<Rightarrow> string \<Rightarrow> 'c pycell \<Rightarrow> 'c pyframe" where
  \<comment> \<open>\<open>df[col] = scalar\<close>\<close>
  "set_column df col v = set_series df col (replicate (length (rows df)) v)"

definition insert_first :: "'c pyframe \<Rightarrow> string \<Rightarrow> 'c pycell \<Rightarrow> py_error + 'c pyframe" where
  \<comment> \<open>\<open>df.insert(0, col, scalar)\<close>: raises ValueError when the column exists\<close>
  "insert_first df col v =
     (if col \<in> set (columns df) then Inl ValueError
      else Inr (df\<lparr>columns := col # columns df, rows := map (\<lambda>r. v # r) (rows df)\<rparr>))"

definition select_columns :: "string list \<Rightarrow> 'c pyframe \<Rightarrow> py_error + 'c pyframe" where
  \<comment> \<open>\<open>df[[c1, c2]]\<close>: raises KeyError when a column is absent\<close>
  "select_columns cs df =
     (if \<exists>c \<in> set cs. c \<notin> set (columns df) then Inl KeyError
      else Inr \<lparr>columns = cs, rows = map (\<lambda>r. map (\<lambda>c. cell_of (columns df) c r) cs) (rows df)\<rparr>)"

definition drop_column :: "string \<Rightarrow> 'c pyframe \<Rightarrow> 'c pyframe" where
  \<comment> \<open>\<open>df.drop(col, axis=1)\<close> of a column that exists\<close>
  "drop_column col df =
     \<lparr>columns = filter (\<lambda>c. c \<noteq> col) (columns df),
      rows = map (\<lambda>r. map snd (filter (\<lambda>(c, x). c \<noteq> col) (zip (columns df) r))) (rows df)\<rparr>"

definition dropna :: "string \<Rightarrow> 'c pyframe \<Rightarrow> 'c pyframe" where
  \<comment> \<open>\<open>df.dropna(subset=[col])\<close>\<close>
  "dropna col df = df\<lparr>rows := filter (\<lambda>r. cell_of (columns df) col r \<noteq> Null) (rows df)\<rparr>"

fun drop_dups :: "'c pycell list \<Rightarrow> string list \<Rightarrow> string \<Rightarrow> 'c pycell list list \<Rightarrow> 'c pycell list list" where
  \<comment> \<open>the loop of \<open>drop_duplicates\<close> with \<open>keep='first'\<close>; the first argument holds the
      values seen so far\<close>
  "drop_dups seen cols col [] = []"
| "drop_dups seen cols col (r # rs) =
     (if cell_of cols col r \<in> set seen then drop_dups seen cols col rs
      else r # drop_dups (cell_of cols col r # seen) cols col rs)"

definition drop_duplicates :: "string \<Rightarrow> 'c pyframe \<Rightarrow> 'c pyframe" where
  \<comment> \<open>\<open>df.drop_duplicates(subset=[col])\<close>: rows compared by the value of the cell\<close>
  "drop_duplicates col df = df\<lparr>rows := drop_dups [] (columns df) col (rows df)\<rparr>"

definition concat_frames :: "'c pyframe list \<Rightarrow> 'c pyframe" where
  \<comment> \<open>\<open>pd.concat(frames, ignore_index=True)\<close>: the union of the columns in order of first
      appearance, a missing cell is NaN\<close>
  "concat_frames fs =
     (let cols = dict_fromkeys [] (concat (map columns fs))
      in \<lparr>columns = cols,
          rows = concat (map (\<lambda>f. map (\<lambda>r. map (\<lambda>c. cell_of (columns f) c r) cols) (rows f)) fs)\<rparr>)"

definition asc :: "string \<Rightarrow> nat list" where
  \<comment> \<open>the code points of an ASCII literal\<close>
  "asc s = map of_char s"

definition str_cell :: "(rat \<Rightarrow> nat list) \<Rightarrow> nat pycell \<Rightarrow> nat list" where
  \<comment> \<open>\<open>str(x)\<close> and \<open>astype(str)\<close>; how Python prints a number is the parameter\<close>
  "str_cell num_str c = (case c of Null \<Rightarrow> asc ''nan'' | Num r \<Rightarrow> num_str r | Txt s \<Rightarrow> s)"

section \<open>Brand list upload\<close>

definition brand_upload :: "'c pyframe \<Rightarrow> 'c pyframe option" where
  \<comment> \<open>what the upload stores as \<open>brand_data\<close>; \<open>None\<close> when the name column is absent and
      only the error is shown\<close>
  "brand_upload brand_df =
     (if brand_col \<notin> set (columns brand_df) then None
      else Some (drop_duplicates brand_col (dropna brand_col brand_df)))"

definition casefold_cell :: "cell \<Rightarrow> cell" where
  "casefold_cell c = (case c of Txt s \<Rightarrow> Txt (lower s) | _ \<Rightarrow> c)"

section \<open>Unicode text of the brand matching\<close>

text \<open>
  A Python \<open>str\<close> is a list of code points. What \<open>re\<close> and \<open>str\<close> know about a code
  point comes from the Unicode tables of the interpreter, which are not part of the
  repository: they are the parameter \<open>U\<close> of everything below. The tables of ASCII are
  given in full; Python's tables agree with them on the code points below 128.
\<close>

record py_text =
  word_char :: "nat \<Rightarrow> bool"
  same_letter :: "nat \<Rightarrow> nat \<Rightarrow> bool"
  str_lower :: "nat list \<Rightarrow> nat list"
  space_char :: "nat \<Rightarrow> bool"

text \<open>
  \<open>word_char\<close> is the class \<open>\w\<close>; \<open>same_letter a b\<close> says that the literal \<open>a\<close> of a
  pattern matches the character \<open>b\<close> under \<open>re.IGNORECASE\<close>; \<open>str_lower\<close> is
  \<open>str.lower()\<close>, which may change the length of a string; \<open>space_char\<close> is the white
  space that \<open>str.strip()\<close> removes.
\<close>

definition ascii_word :: "nat \<Rightarrow> bool" where
  \<comment> \<open>digits, letters and the underscore\<close>
  "ascii_word n = ((48 \<le> n \<and> n \<le> 57) \<or> (65 \<le> n \<and> n \<le> 90) \<or> n = 95 \<or> (97 \<le> n \<and> n \<le> 122))"

definition ascii_lower :: "nat \<Rightarrow> nat" where
  "ascii_lower n = (if 65 \<le> n \<and> n \<le> 90 then n + 32 else n)"

definition ascii_space :: "nat \<Rightarrow> bool" where
  \<comment> \<open>tab, newline, VT, FF, CR, FS, GS, RS, US, space\<close>
  "ascii_space n = ((9 \<le> n \<and> n \<le> 13) \<or> (28 \<le> n \<and> n \<le> 32))"

definition ascii_text :: py_text where
  "ascii_text =
     \<lparr>word_char = ascii_word,
      same_letter = (\<lambda>a b. ascii_lower a = ascii_lower b),
      str_lower = map ascii_lower,
      space_char = ascii_space\<rparr>"



definition ustrip :: "py_text \<Rightarrow> nat list \<Rightarrow> nat list" where
  \<comment> \<open>\<open>str.strip()\<close>\<close>
  "ustrip U s = rev (dropWhile (space_char U) (rev (dropWhile (space_char U) s)))"

section \<open>Whole-word search\<close>

text \<open>
  The pattern is \<open>(?<!\w)\<close>, the escaped term, \<open>(?!\w)\<close>, searched with
  \<open>re.IGNORECASE\<close>. \<open>re.search\<close> tries the positions of the subject from left to
  right; \<open>search_from\<close> carries the character before the position it tries.
\<close>

fun lit_match :: "py_text \<Rightarrow> nat list \<Rightarrow> nat list \<Rightarrow> nat list option" where
  \<comment> \<open>the escaped term matched at the current position: what is left of the subject\<close>
  "lit_match U [] s = Some s"
| "lit_match U (a # t) [] = None"
| "lit_match U (a # t) (c # s) = (if same_letter U a c then lit_match U t s else None)"

definition match_here :: "py_text \<Rightarrow> nat option \<Rightarrow> nat list \<Rightarrow> nat list \<Rightarrow> bool" where
  \<comment> \<open>the whole pattern tried at one position\<close>
  "match_here U prev t s =
     ((case prev of None \<Rightarrow> True | Some c \<Rightarrow> \<not> word_char U c) \<and>
      (case lit_match U t s of
         None \<Rightarrow> False
       | Some rest \<Rightarrow> (case rest of [] \<Rightarrow> True | c # _ \<Rightarrow> \<not> word_char U c)))"

fun search_from :: "py_text \<Rightarrow> nat option \<Rightarrow> nat list \<Rightarrow> nat list \<Rightarrow> bool" where
  "search_from U prev t [] = match_here U prev t []"
| "search_from U prev t (c # s) = (match_here U prev t (c # s) \<or> search_from U (Some c) t s)"

definition re_search :: "py_text \<Rightarrow> nat list \<Rightarrow> nat list \<Rightarrow> bool" where
  \<comment> \<open>\<open>re.search(pattern, s, re.IGNORECASE)\<close> finds a match\<close>
  "re_search U t s = search_from U None t s"



section \<open>Manual rules\<close>

fun split_comma :: "nat list \<Rightarrow> nat list list" where
  \<comment> \<open>\<open>s.split(',')\<close>; the comma is the code point 44\<close>
  "split_comma [] = [[]]"
| "split_comma (c # cs) =
     (if c = 44 then [] # split_comma cs
      else (case split_comma cs of [] \<Rightarrow> [[c]] | t # ts \<Rightarrow> (c # t) # ts))"

definition rule_keywords :: "py_text \<Rightarrow> nat list \<Rightarrow> nat list list" where
  \<comment> \<open>the terms of one rule: trimmed, lower-cased, empty ones left out\<close>
  "rule_keywords U s =
     map (\<lambda>kw. str_lower U (ustrip U kw)) (filter (\<lambda>kw. ustrip U kw \<noteq> []) (split_comma s))"

fun dict_set :: "('k \<times> 'v) list \<Rightarrow> 'k \<Rightarrow> 'v \<Rightarrow> ('k \<times> 'v) list" where
  \<comment> \<open>\<open>d[k] = v\<close> on a dict in insertion order: a key that exists keeps its place\<close>
  "dict_set [] k v = [(k, v)]"
| "dict_set ((k', v') # d) k v =
     (if k' = k then (k', v) # d else (k', v') # dict_set d k v)"

definition manual_map_of :: "py_text \<Rightarrow> (nat list \<times> nat list) list \<Rightarrow> (nat list \<times> nat list) list" where
  \<comment> \<open>the dict \<open>manual_map\<close> built from the rules (brand name, terms) in their order\<close>
  "manual_map_of U custom_rules =
     foldl (\<lambda>m (brand_name, kws). foldl (\<lambda>m kw. dict_set m kw brand_name) m (rule_keywords U kws))
       [] custom_rules"

definition rules_of_frame :: "(rat \<Rightarrow> nat list) \<Rightarrow> nat pyframe \<Rightarrow> (nat list \<times> nat list) list" where
  \<comment> \<open>the rows of \<open>custom_rules_df\<close> as the loop reads them\<close>
  "rules_of_frame num_str df =
     map (\<lambda>r. (str_cell num_str (cell_of (columns df) brand_col r),
               str_cell num_str (cell_of (columns df) rule_kw_col r))) (rows df)"



section \<open>Matching one keyword\<close>

definition truthy :: "nat list option \<Rightarrow> bool" where
  \<comment> \<open>Python's truth value of \<open>matched_brand\<close>: \<open>None\<close> and the empty string are false\<close>
  "truthy x = (case x of None \<Rightarrow> False | Some s \<Rightarrow> s \<noteq> [])"

fun manual_pass ::
  "py_text \<Rightarrow> (nat list \<times> nat list) list \<Rightarrow> nat list \<Rightarrow> (nat list \<times> nat list) option" where
  \<comment> \<open>the loop over \<open>manual_map.items()\<close>: brand and term of the first term found\<close>
  "manual_pass U [] keyword_lower = None"
| "manual_pass U ((manual_kw, manual_brand) # m) keyword_lower =
     (if manual_kw \<noteq> [] \<and> re_search U manual_kw keyword_lower then Some (manual_brand, manual_kw)
      else manual_pass U m keyword_lower)"

definition is_txt :: "'c pycell \<Rightarrow> bool" where
  "is_txt c = (case c of Txt s \<Rightarrow> True | _ \<Rightarrow> False)"

definition original_brand :: "py_text \<Rightarrow> nat pycell list \<Rightarrow> nat list \<Rightarrow> py_error + nat list" where
  \<comment> \<open>the first name of the brand table whose lower case is the term; \<open>.str\<close> raises on
      a column without text, \<open>.iloc[0]\<close> raises when no row is left\<close>
  "original_brand U names brand =
     (if list_all (\<lambda>c. \<not> is_txt c) names then Inl AttributeError
      else (case List.find (\<lambda>c. case c of Txt s \<Rightarrow> str_lower U s = brand | _ \<Rightarrow> False) names of
              Some (Txt s) \<Rightarrow> Inr s
            | _ \<Rightarrow> Inl IndexError))"

fun brand_pass ::
  "py_text \<Rightarrow> nat list list \<Rightarrow> nat pycell list \<Rightarrow> nat list \<Rightarrow>
   py_error + (nat list \<times> nat list) option" where
  \<comment> \<open>the loop over \<open>brand_list\<close>\<close>
  "brand_pass U [] names keyword_lower = Inr None"
| "brand_pass U (brand # bl) names keyword_lower =
     (if brand \<noteq> [] \<and> re_search U brand keyword_lower
      then (case original_brand U names brand of
              Inl e \<Rightarrow> Inl e
            | Inr ob \<Rightarrow> Inr (Some (ob, brand)))
      else brand_pass U bl names keyword_lower)"

definition match_row ::
  "py_text \<Rightarrow> (nat list \<times> nat list) list \<Rightarrow> nat list list \<Rightarrow> nat pycell list \<Rightarrow> nat list \<Rightarrow>
   py_error + (nat list option \<times> nat list option)" where
  \<comment> \<open>the body of the loop over the rows up to step 3: \<open>(matched_brand, matched_term)\<close>\<close>
  "match_row U manual_map brand_list names keyword_lower =
     (let m = (case manual_pass U manual_map keyword_lower of
                 None \<Rightarrow> (None, None)
               | Some (b, t) \<Rightarrow> (Some b, Some t))
      in if \<not> truthy (fst m)
         then (case brand_pass U brand_list names keyword_lower of
                 Inl e \<Rightarrow> Inl e
               | Inr None \<Rightarrow> Inr m
               | Inr (Some (b, t)) \<Rightarrow> Inr (Some b, Some t))
         else Inr m)"


definition brand_list_of :: "py_text \<Rightarrow> (rat \<Rightarrow> nat list) \<Rightarrow> nat pycell list \<Rightarrow> nat list list" where
  \<comment> \<open>\<open>brand_df[name].astype(str).str.lower().tolist()\<close>\<close>
  "brand_list_of U num_str names = map (\<lambda>c. str_lower U (str_cell num_str c)) names"


section \<open>Rules as the specification words them\<close>






section \<open>Brand matching on shared tables\<close>

text \<open>
  A DataFrame is a mutable object that the caller and the callee share. The store
  holds the tables, a reference is an index into the store, a new object is put at the
  end. \<open>match_brands\<close> takes references to the product table, the brand table (either
  may be \<open>None\<close>) and the rules, and returns \<open>None\<close> or a reference to its result; an
  exception leaves the function with the store as it is at that moment.
\<close>

type_synonym store = "nat pyframe list"

definition alloc :: "store \<Rightarrow> nat pyframe \<Rightarrow> nat \<times> store" where
  \<comment> \<open>a new object and its reference\<close>
  "alloc \<sigma> df = (length \<sigma>, \<sigma> @ [df])"

definition kl_col :: string where
  "kl_col = ''keyword_lower''"

definition empty_frame :: "'c pyframe \<Rightarrow> bool" where
  \<comment> \<open>\<open>df.empty\<close>: no row or no column\<close>
  "empty_frame df = (rows df = [] \<or> columns df = [])"

definition set_at :: "'c pyframe \<Rightarrow> nat \<Rightarrow> string \<Rightarrow> 'c pycell \<Rightarrow> 'c pyframe" where
  \<comment> \<open>\<open>df.at[idx, col] = v\<close> for a row and a column of the table\<close>
  "set_at df idx col v =
     df\<lparr>rows := (rows df)[idx := set_cell (columns df) col v (rows df ! idx)]\<rparr>"

definition rules_read :: "(rat \<Rightarrow> nat list) \<Rightarrow> nat pyframe \<Rightarrow> py_error + (nat list \<times> nat list) list" where
  \<comment> \<open>the loop over the rules: nothing is read of an empty table, \<open>row[col]\<close> raises on a
      column that the table does not have\<close>
  "rules_read num_str df =
     (if empty_frame df then Inr []
      else if brand_col \<notin> set (columns df) \<or> rule_kw_col \<notin> set (columns df) then Inl KeyError
      else Inr (rules_of_frame num_str df))"

fun match_rows ::
  "py_text \<Rightarrow> (rat \<Rightarrow> nat list) \<Rightarrow> (nat list \<times> nat list) list \<Rightarrow> nat list list \<Rightarrow> nat \<Rightarrow> nat \<Rightarrow>
   (nat \<times> nat pycell) list \<Rightarrow> store \<Rightarrow> py_error option \<times> store" where
  \<comment> \<open>the loop over \<open>result_df.iterrows()\<close>: the rows are those of the table when the loop
      starts; the brand table \<open>b\<close> is read and the result \<open>r\<close> is written\<close>
  "match_rows U num_str manual_map brand_list b r [] \<sigma> = (None, \<sigma>)"
| "match_rows U num_str manual_map brand_list b r ((idx, keyword_lower) # its) \<sigma> =
     (case match_row U manual_map brand_list (column (\<sigma> ! b) brand_col)
             (str_cell num_str keyword_lower) of
        Inl e \<Rightarrow> (Some e, \<sigma>)
      | Inr m \<Rightarrow>
          match_rows U num_str manual_map brand_list b r its
            (if truthy (fst m)
             then \<sigma>[r := set_at (set_at (set_at (\<sigma> ! r) idx brand_col (Txt (the (fst m))))
                                idx term_col (case snd m of None \<Rightarrow> Null | Some t \<Rightarrow> Txt t))
                          idx type_col (Txt (asc branded_kws))]
             else \<sigma>))"

definition match_fill ::
  "py_text \<Rightarrow> (rat \<Rightarrow> nat list) \<Rightarrow> (nat list \<times> nat list) list \<Rightarrow> nat \<Rightarrow> nat \<Rightarrow> store \<Rightarrow>
   (py_error + nat option) \<times> store" where
  \<comment> \<open>from the brand list to the end: the three result columns are added to \<open>r\<close>, the
      rows are matched, the last column is added and the temporary column dropped, which
      makes the table that is returned\<close>
  "match_fill U num_str custom_rules b r \<sigma>3 =
     (let brand_list = brand_list_of U num_str (column (\<sigma>3 ! b) brand_col);
          manual_map = manual_map_of U custom_rules;
          \<sigma>4 = \<sigma>3[r := set_column (\<sigma>3 ! r) brand_col Null];
          \<sigma>5 = \<sigma>4[r := set_column (\<sigma>4 ! r) term_col Null];
          \<sigma>6 = \<sigma>5[r := set_column (\<sigma>5 ! r) type_col (Txt (asc non_branded_kws))]
      in (case match_rows U num_str manual_map brand_list b r
                 (zip [0..<length (rows (\<sigma>6 ! r))] (column (\<sigma>6 ! r) kl_col)) \<sigma>6 of
            (Some e, \<sigma>7) \<Rightarrow> (Inl e, \<sigma>7)
          | (None, \<sigma>7) \<Rightarrow>
              (let \<sigma>8 = \<sigma>7[r := set_column (\<sigma>7 ! r) feature_col Null];
                   (d, \<sigma>9) = alloc \<sigma>8 (drop_column kl_col (\<sigma>8 ! r))
               in (Inr (Some d), \<sigma>9))))"

definition match_prepare ::
  "py_text \<Rightarrow> (rat \<Rightarrow> nat list) \<Rightarrow> store \<Rightarrow> nat \<Rightarrow> nat \<Rightarrow> nat \<Rightarrow> (py_error + nat option) \<times> store" where
  \<comment> \<open>after the two guards: the two columns of the product table are selected and copied
      into the new table \<open>r\<close>, which gets the lower-cased keywords; the brand names and
      the rules are read\<close>
  "match_prepare U num_str \<sigma> p b custom_rules_df =
     (case select_columns [kw_col, vol_col] (\<sigma> ! p) of
        Inl e \<Rightarrow> (Inl e, \<sigma>)
      | Inr sel \<Rightarrow>
          (let (t, \<sigma>1) = alloc \<sigma> sel;
               (r, \<sigma>2) = alloc \<sigma>1 (\<sigma>1 ! t);
               \<sigma>3 = \<sigma>2[r := set_series (\<sigma>2 ! r) kl_col
                       (map (\<lambda>c. Txt (str_lower U (str_cell num_str c))) (column (\<sigma>2 ! r) kw_col))]
           in if brand_col \<notin> set (columns (\<sigma>3 ! b)) then (Inl KeyError, \<sigma>3)
              else (case rules_read num_str (\<sigma>3 ! custom_rules_df) of
                      Inl e \<Rightarrow> (Inl e, \<sigma>3)
                    | Inr custom_rules \<Rightarrow> match_fill U num_str custom_rules b r \<sigma>3)))"

definition match_brands ::
  "py_text \<Rightarrow> (rat \<Rightarrow> nat list) \<Rightarrow> store \<Rightarrow> nat option \<Rightarrow> nat option \<Rightarrow> nat \<Rightarrow>
   (py_error + nat option) \<times> store" where
  \<comment> \<open>the outcome, an exception or what is returned, and the store it leaves\<close>
  "match_brands U num_str \<sigma> product_df brand_df custom_rules_df =
     (case product_df of
        None \<Rightarrow> (Inr None, \<sigma>)
      | Some p \<Rightarrow>
          (if empty_frame (\<sigma> ! p) then (Inr None, \<sigma>)
           else (case brand_df of
                   None \<Rightarrow> (Inr None, \<sigma>)
                 | Some b \<Rightarrow>
                     (if empty_frame (\<sigma> ! b) then (Inr None, \<sigma>)
                      else match_prepare U num_str \<sigma> p b custom_rules_df))))"

definition same_outcome ::
  "(py_error + nat option) \<times> store \<Rightarrow> (py_error + nat option) \<times> store \<Rightarrow> bool" where
  \<comment> \<open>two runs end alike: the same exception, \<open>None\<close> twice, or two tables with the same
      content\<close>
  "same_outcome x y =
     (case fst x of
        Inl e \<Rightarrow> fst y = Inl e
      | Inr None \<Rightarrow> fst y = Inr None
      | Inr (Some d) \<Rightarrow> (case fst y of Inr (Some d') \<Rightarrow> snd x ! d = snd y ! d' | _ \<Rightarrow> False))"

section \<open>Batch merges (tab5, tab6)\<close>

text \<open>
  The codecs are outside the model: an uploaded file carries what \<open>pd.read_csv\<close> and
  \<open>pd.read_excel\<close> return on its content, \<open>None\<close> when they raise; an uploaded archive
  is unreadable or a list of members. Widgets that only display (tables, metrics,
  download buttons, debug lines) are left out of the messages.
\<close>

record upload =
  file_name :: string
  as_csv :: "frame option"
  as_excel :: "frame option"

datatype zip_content = BadZipFile | Members "upload list"

record zip_upload =
  zip_name :: string
  content :: zip_content

datatype message =
    Success nat nat
  | Warning
  | Error "string list"
  | Info
  | FileSuccess string
  | FileError string

record merge_state =
  all_data :: "frame list"
  error_files :: "string list"
  file_messages :: "message list"

record merge_result =
  merged_df :: "frame option"
  shown :: "message list"

definition ends_with :: "string \<Rightarrow> string \<Rightarrow> bool" where
  \<comment> \<open>\<open>s.endswith(suffix)\<close>\<close>
  "ends_with s suffix =
     (length suffix \<le> length s \<and> drop (length s - length suffix) s = suffix)"

definition rsplit_stem :: "string \<Rightarrow> string" where
  \<comment> \<open>\<open>name.rsplit('.', 1)[0]\<close>: the name up to its last dot, the whole name without one\<close>
  "rsplit_stem n =
     (if CHR ''.'' \<in> set n then rev (tl (dropWhile (\<lambda>c. c \<noteq> CHR ''.'') (rev n))) else n)"

definition tabular :: "upload \<Rightarrow> bool" where
  \<comment> \<open>\<open>f.lower().endswith(('.csv', '.xlsx'))\<close>\<close>
  "tabular f = (ends_with (lower (file_name f)) ''.csv'' \<or> ends_with (lower (file_name f)) ''.xlsx'')"

definition zip_read :: "zip_upload \<Rightarrow> frame option" where
  \<comment> \<open>the archive opened and its first tabular member read; \<open>None\<close> is every way into
      \<open>error_files\<close>\<close>
  "zip_read zip_file =
     (case content zip_file of
        BadZipFile \<Rightarrow> None
      | Members z \<Rightarrow>
          (case filter tabular z of
             [] \<Rightarrow> None
           | f # _ \<Rightarrow> (if ends_with (lower (file_name f)) ''.csv'' then as_csv f else as_excel f)))"

definition zip_one :: "zip_upload \<Rightarrow> frame option" where
  \<comment> \<open>the body of the loop of the ZIP merge: the table appended to \<open>all_data\<close>\<close>
  "zip_one zip_file =
     (case zip_read zip_file of
        None \<Rightarrow> None
      | Some df \<Rightarrow> Some (set_column df time_col (Txt (rsplit_stem (zip_name zip_file)))))"

definition zip_step :: "merge_state \<Rightarrow> zip_upload \<Rightarrow> merge_state" where
  "zip_step st zip_file =
     (case zip_one zip_file of
        None \<Rightarrow> st\<lparr>error_files := error_files st @ [zip_name zip_file]\<rparr>
      | Some df \<Rightarrow> st\<lparr>all_data := all_data st @ [df]\<rparr>)"

definition merge_report :: "merge_state \<Rightarrow> merge_result" where
  \<comment> \<open>what follows the loop in both merges\<close>
  "merge_report st =
     \<lparr>merged_df = (if all_data st \<noteq> [] then Some (concat_frames (all_data st)) else None),
      shown = file_messages st @
        (if all_data st \<noteq> []
         then [Success (length (all_data st)) (length (rows (concat_frames (all_data st))))]
         else [Warning]) @
        (if error_files st \<noteq> [] then [Error (error_files st)] else [])\<rparr>"

definition merge_zips :: "zip_upload list \<Rightarrow> merge_result" where
  "merge_zips uploaded_zips =
     (if uploaded_zips \<noteq> []
      then merge_report
             (foldl zip_step \<lparr>all_data = [], error_files = [], file_messages = []\<rparr> uploaded_zips)
      else \<lparr>merged_df = None, shown = [Info]\<rparr>)"

definition file_read :: "upload \<Rightarrow> frame option" where
  "file_read file = (if ends_with (lower (file_name file)) ''.csv'' then as_csv file else as_excel file)"

definition file_one :: "upload \<Rightarrow> frame option" where
  \<comment> \<open>the body of the loop of the file merge; \<open>None\<close> is the \<open>except\<close> branch\<close>
  "file_one file =
     (case file_read file of
        None \<Rightarrow> None
      | Some df \<Rightarrow>
          (case insert_first df time_col (Txt (rsplit_stem (file_name file))) of
             Inl e \<Rightarrow> None
           | Inr df' \<Rightarrow> Some df'))"

definition file_step :: "merge_state \<Rightarrow> upload \<Rightarrow> merge_state" where
  "file_step st file =
     (case file_one file of
        None \<Rightarrow> st\<lparr>error_files := error_files st @ [file_name file],
                    file_messages := file_messages st @ [FileError (file_name file)]\<rparr>
      | Some df \<Rightarrow> st\<lparr>all_data := all_data st @ [df],
                       file_messages := file_messages st @ [FileSuccess (file_name file)]\<rparr>)"

definition merge_files :: "upload list \<Rightarrow> merge_result" where
  "merge_files uploaded_files =
     (if uploaded_files \<noteq> []
      then merge_report
             (foldl file_step \<lparr>all_data = [], error_files = [], file_messages = []\<rparr> uploaded_files)
      else \<lparr>merged_df = None, shown = [Info]\<rparr>)"

definition file_message :: "upload \<Rightarrow> message" where
  \<comment> \<open>the message the loop of the file merge shows for one file\<close>
  "file_message f = (if file_one f = None then FileError (file_name f) else FileSuccess (file_name f))"

section \<open>Properties of the identifier dedup\<close>

lemma asin_dedup_example_value:
  "asin_dedup ''B08 b08 B08,X1; X1'' =
     Inr \<lparr>original_count = 5, unique_count = 2, unique_asins = [''B08'', ''X1'']\<rparr>"
  by code_simp

text \<open>
  C6 (as amended): on the input \<open>B08 b08 B08,X1; X1\<close> the dedup stores the unique list
  \<open>[B08, X1]\<close> and the unique count 2; the text holds five tokens (B08, b08, B08, X1,
  X1), so the original count is 5.
\<close>

theorem asin_dedup_example:
  "asin_dedup ''B08 b08 B08,X1; X1'' =
     Inr \<lparr>original_count = 5, unique_count = 2, unique_asins = [''B08'', ''X1'']\<rparr>"
  by (rule asin_dedup_example_value)

text \<open>
  C6 as stated, with an original count of 4, does not hold of the handler.
\<close>

theorem asin_dedup_example_not_four:
  "asin_dedup ''B08 b08 B08,X1; X1'' \<noteq>
     Inr \<lparr>original_count = 4, unique_count = 2, unique_asins = [''B08'', ''X1'']\<rparr>"
  by (simp add: asin_dedup_example_value)

section \<open>Properties of the whole-word search\<close>






























section \<open>Properties of the manual rules\<close>













lemma dict_fromkeys_distinct: "distinct d \<Longrightarrow> distinct (dict_fromkeys d xs)"
  by (induction xs arbitrary: d) auto

lemma dict_fromkeys_set: "set (dict_fromkeys d xs) = set d \<union> set xs"
  by (induction xs arbitrary: d) auto


















section \<open>Properties of the matching on shared tables\<close>

lemma match_rows_length:
  "length (snd (match_rows U num_str mm bl b r its \<sigma>)) = length \<sigma>"
proof (induction its arbitrary: \<sigma>)
  case Nil show ?case by simp
next
  case (Cons it its)
  obtain idx kl where it: "it = (idx, kl)" by (cases it)
  show ?case
    by (cases "match_row U mm bl (column (\<sigma> ! b) brand_col) (str_cell num_str kl)")
       (simp_all add: it Cons.IH)
qed

lemma match_rows_other:
  "a \<noteq> r \<Longrightarrow> snd (match_rows U num_str mm bl b r its \<sigma>) ! a = \<sigma> ! a"
proof (induction its arbitrary: \<sigma>)
  case Nil show ?case by simp
next
  case (Cons it its)
  obtain idx kl where it: "it = (idx, kl)" by (cases it)
  show ?case using Cons.prems
    by (cases "match_row U mm bl (column (\<sigma> ! b) brand_col) (str_cell num_str kl)")
       (simp_all add: it Cons.IH)
qed

lemma match_rows_frameD:
  assumes "match_rows U num_str mm bl b r its \<sigma> = (eo, \<sigma>')"
  shows "length \<sigma>' = length \<sigma>" "a \<noteq> r \<Longrightarrow> \<sigma>' ! a = \<sigma> ! a"
  using match_rows_length[of U num_str mm bl b r its \<sigma>]
    match_rows_other[of a r U num_str mm bl b its \<sigma>] assms by simp_all

lemma match_fill_frame:
  assumes "match_fill U num_str cr b r \<sigma>3 = (out, \<sigma>')"
  shows "length \<sigma>3 \<le> length \<sigma>'"
    and "a < length \<sigma>3 \<Longrightarrow> a \<noteq> r \<Longrightarrow> \<sigma>' ! a = \<sigma>3 ! a"
    and "out = Inr (Some d) \<Longrightarrow> d = length \<sigma>3 \<and> length \<sigma>3 < length \<sigma>'"
proof -
  let ?s4 = "\<sigma>3[r := set_column (\<sigma>3 ! r) brand_col Null]"
  let ?s5 = "?s4[r := set_column (?s4 ! r) term_col Null]"
  let ?s6 = "?s5[r := set_column (?s5 ! r) type_col (Txt (asc non_branded_kws))]"
  let ?m = "match_rows U num_str (manual_map_of U cr)
              (brand_list_of U num_str (column (\<sigma>3 ! b) brand_col)) b r
              (zip [0..<length (rows (?s6 ! r))] (column (?s6 ! r) kl_col)) ?s6"
  obtain eo s7 where m: "?m = (eo, s7)" by (cases ?m)
  have l7: "length s7 = length \<sigma>3" using match_rows_frameD(1)[OF m] by simp
  have o7: "a \<noteq> r \<Longrightarrow> s7 ! a = \<sigma>3 ! a" for a using match_rows_frameD(2)[OF m, of a] by simp
  show "length \<sigma>3 \<le> length \<sigma>'"
    using assms m l7 by (cases eo) (auto simp: match_fill_def Let_def alloc_def)
  show "a < length \<sigma>3 \<Longrightarrow> a \<noteq> r \<Longrightarrow> \<sigma>' ! a = \<sigma>3 ! a"
    using assms m l7 o7[of a] by (cases eo) (auto simp: match_fill_def Let_def alloc_def nth_append)
  show "out = Inr (Some d) \<Longrightarrow> d = length \<sigma>3 \<and> length \<sigma>3 < length \<sigma>'"
    using assms m l7 by (cases eo) (auto simp: match_fill_def Let_def alloc_def)
qed

lemma match_prepare_frame:
  assumes "match_prepare U num_str \<sigma> p b c = (out, \<sigma>')"
  shows "length \<sigma> \<le> length \<sigma>'"
    and "a < length \<sigma> \<Longrightarrow> \<sigma>' ! a = \<sigma> ! a"
    and "out = Inr (Some d) \<Longrightarrow> length \<sigma> \<le> d \<and> d < length \<sigma>'"
proof -
  show "length \<sigma> \<le> length \<sigma>'"
    using assms
    by (auto simp: match_prepare_def Let_def alloc_def split: sum.splits if_splits
        dest!: match_fill_frame(1))
  show "a < length \<sigma> \<Longrightarrow> \<sigma>' ! a = \<sigma> ! a"
    using assms
    by (auto simp: match_prepare_def Let_def alloc_def nth_append split: sum.splits if_splits
        dest!: match_fill_frame(2)[where a = a])
  show "out = Inr (Some d) \<Longrightarrow> length \<sigma> \<le> d \<and> d < length \<sigma>'"
    using assms
    by (auto simp: match_prepare_def Let_def alloc_def split: sum.splits if_splits
        dest!: match_fill_frame(3)[where d = d])
qed

lemma match_brands_frame:
  assumes "match_brands U num_str \<sigma> product_df brand_df c = (out, \<sigma>')"
  shows "length \<sigma> \<le> length \<sigma>'"
    and "a < length \<sigma> \<Longrightarrow> \<sigma>' ! a = \<sigma> ! a"
    and "out = Inr (Some d) \<Longrightarrow> length \<sigma> \<le> d \<and> d < length \<sigma>'"
proof -
  show "length \<sigma> \<le> length \<sigma>'"
    using assms
    by (auto simp: match_brands_def split: option.splits if_splits dest!: match_prepare_frame(1))
  show "a < length \<sigma> \<Longrightarrow> \<sigma>' ! a = \<sigma> ! a"
    using assms
    by (auto simp: match_brands_def split: option.splits if_splits
        dest!: match_prepare_frame(2)[where a = a])
  show "out = Inr (Some d) \<Longrightarrow> length \<sigma> \<le> d \<and> d < length \<sigma>'"
    using assms
    by (auto simp: match_brands_def split: option.splits if_splits
        dest!: match_prepare_frame(3)[where d = d])
qed


lemma match_rows_rel:
  assumes "\<sigma> ! b = \<tau> ! b" "\<sigma> ! r = \<tau> ! r'" "b \<noteq> r" "b \<noteq> r'" "r < length \<sigma>" "r' < length \<tau>"
  shows "fst (match_rows U num_str mm bl b r its \<sigma>) = fst (match_rows U num_str mm bl b r' its \<tau>) \<and>
         snd (match_rows U num_str mm bl b r its \<sigma>) ! r =
         snd (match_rows U num_str mm bl b r' its \<tau>) ! r'"
  using assms
proof (induction its arbitrary: \<sigma> \<tau>)
  case Nil then show ?case by simp
next
  case (Cons it its)
  obtain idx kl where it: "it = (idx, kl)" by (cases it)
  show ?case
  proof (cases "match_row U mm bl (column (\<tau> ! b) brand_col) (str_cell num_str kl)")
    case (Inl e)
    then show ?thesis using Cons.prems by (simp add: it)
  next
    case (Inr m)
    show ?thesis
    proof (cases "truthy (fst m)")
      case False
      then show ?thesis using Inr Cons.prems Cons.IH[of \<sigma> \<tau>] by (simp add: it)
    next
      case True
      let ?x = "set_at (set_at (set_at (\<tau> ! r') idx brand_col (Txt (the (fst m))))
                   idx term_col (case snd m of None \<Rightarrow> Null | Some t \<Rightarrow> Txt t))
                 idx type_col (Txt (asc branded_kws))"
      have "fst (match_rows U num_str mm bl b r its (\<sigma>[r := ?x])) =
            fst (match_rows U num_str mm bl b r' its (\<tau>[r' := ?x])) \<and>
            snd (match_rows U num_str mm bl b r its (\<sigma>[r := ?x])) ! r =
            snd (match_rows U num_str mm bl b r' its (\<tau>[r' := ?x])) ! r'"
        using Cons.prems by (intro Cons.IH) simp_all
      then show ?thesis using Inr True Cons.prems by (simp add: it)
    qed
  qed
qed

lemma match_fill_rel:
  assumes "\<sigma> ! b = \<tau> ! b" "\<sigma> ! r = \<tau> ! r'" "b \<noteq> r" "b \<noteq> r'" "r < length \<sigma>" "r' < length \<tau>"
  shows "same_outcome (match_fill U num_str cr b r \<sigma>) (match_fill U num_str cr b r' \<tau>)"
proof -
  let ?f = "\<lambda>x. set_column (set_column (set_column x brand_col Null) term_col Null)
                  type_col (Txt (asc non_branded_kws))"
  let ?s6 = "\<sigma>[r := ?f (\<sigma> ! r)]"
  let ?t6 = "\<tau>[r' := ?f (\<tau> ! r')]"
  let ?bl = "brand_list_of U num_str (column (\<tau> ! b) brand_col)"
  let ?its = "zip [0..<length (rows (?f (\<tau> ! r')))] (column (?f (\<tau> ! r')) kl_col)"
  let ?ms = "match_rows U num_str (manual_map_of U cr) ?bl b r ?its ?s6"
  let ?mt = "match_rows U num_str (manual_map_of U cr) ?bl b r' ?its ?t6"
  have rel: "fst ?ms = fst ?mt \<and> snd ?ms ! r = snd ?mt ! r'"
    using assms by (intro match_rows_rel) simp_all
  have ls: "length (snd ?ms) = length \<sigma>" "length (snd ?mt) = length \<tau>"
    by (simp_all add: match_rows_length)
  obtain eo s7 where ms: "?ms = (eo, s7)" by (cases ?ms)
  obtain eo' t7 where mt: "?mt = (eo', t7)" by (cases ?mt)
  have e: "eo' = eo" "s7 ! r = t7 ! r'" "length s7 = length \<sigma>" "length t7 = length \<tau>"
    using rel ls ms mt by simp_all
  have fs: "match_fill U num_str cr b r \<sigma> =
     (case eo of
        Some e \<Rightarrow> (Inl e, s7)
      | None \<Rightarrow>
          (Inr (Some (length s7)),
           s7[r := set_column (s7 ! r) feature_col Null] @
             [drop_column kl_col (set_column (s7 ! r) feature_col Null)]))"
    using assms ms e(3) by (simp add: match_fill_def Let_def alloc_def split: option.splits)
  have ft: "match_fill U num_str cr b r' \<tau> =
     (case eo of
        Some e \<Rightarrow> (Inl e, t7)
      | None \<Rightarrow>
          (Inr (Some (length t7)),
           t7[r' := set_column (t7 ! r') feature_col Null] @
             [drop_column kl_col (set_column (t7 ! r') feature_col Null)]))"
    using assms mt e(1,4) by (simp add: match_fill_def Let_def alloc_def split: option.splits)
  show ?thesis
    unfolding fs ft using e
    by (cases eo) (simp_all add: same_outcome_def nth_append)
qed

lemma match_prepare_rel:
  assumes "\<sigma> ! p = \<tau> ! p" "\<sigma> ! b = \<tau> ! b" "\<sigma> ! c = \<tau> ! c"
    "p < length \<sigma>" "b < length \<sigma>" "c < length \<sigma>"
    "p < length \<tau>" "b < length \<tau>" "c < length \<tau>"
  shows "same_outcome (match_prepare U num_str \<sigma> p b c) (match_prepare U num_str \<tau> p b c)"
proof (cases "select_columns [kw_col, vol_col] (\<tau> ! p)")
  case (Inl e)
  then show ?thesis using assms by (simp add: match_prepare_def same_outcome_def)
next
  case (Inr sel)
  let ?x = "set_series sel kl_col
              (map (\<lambda>c. Txt (str_lower U (str_cell num_str c))) (column sel kw_col))"
  let ?s3 = "(\<sigma> @ [sel, sel])[Suc (length \<sigma>) := ?x]"
  let ?t3 = "(\<tau> @ [sel, sel])[Suc (length \<tau>) := ?x]"
  have n: "?s3 ! b = \<tau> ! b" "?t3 ! b = \<tau> ! b" "?s3 ! c = \<tau> ! c" "?t3 ! c = \<tau> ! c"
    "?s3 ! Suc (length \<sigma>) = ?x" "?t3 ! Suc (length \<tau>) = ?x"
    using assms by (simp_all add: nth_append)
  have ps: "match_prepare U num_str \<sigma> p b c =
     (if brand_col \<notin> set (columns (\<tau> ! b)) then (Inl KeyError, ?s3)
      else (case rules_read num_str (\<tau> ! c) of
              Inl e \<Rightarrow> (Inl e, ?s3)
            | Inr cr \<Rightarrow> match_fill U num_str cr b (Suc (length \<sigma>)) ?s3))"
    using Inr assms by (simp add: match_prepare_def Let_def alloc_def nth_append split: sum.splits)
  have pt: "match_prepare U num_str \<tau> p b c =
     (if brand_col \<notin> set (columns (\<tau> ! b)) then (Inl KeyError, ?t3)
      else (case rules_read num_str (\<tau> ! c) of
              Inl e \<Rightarrow> (Inl e, ?t3)
            | Inr cr \<Rightarrow> match_fill U num_str cr b (Suc (length \<tau>)) ?t3))"
    using Inr assms by (simp add: match_prepare_def Let_def alloc_def nth_append split: sum.splits)
  have f: "same_outcome (match_fill U num_str cr b (Suc (length \<sigma>)) ?s3)
             (match_fill U num_str cr b (Suc (length \<tau>)) ?t3)" for cr
    using assms n by (intro match_fill_rel) simp_all
  show ?thesis
  proof (cases "brand_col \<in> set (columns (\<tau> ! b))")
    case False
    then show ?thesis unfolding ps pt by (simp add: same_outcome_def)
  next
    case True
    show ?thesis
    proof (cases "rules_read num_str (\<tau> ! c)")
      case (Inl e)
      then show ?thesis unfolding ps pt using True by (simp add: same_outcome_def)
    next
      case (Inr cr)
      have "match_prepare U num_str \<sigma> p b c = match_fill U num_str cr b (Suc (length \<sigma>)) ?s3"
        unfolding ps using True Inr by simp
      moreover have "match_prepare U num_str \<tau> p b c = match_fill U num_str cr b (Suc (length \<tau>)) ?t3"
        unfolding pt using True Inr by simp
      ultimately show ?thesis using f[of cr] by simp
    qed
  qed
qed

lemma match_brands_rel:
  assumes "\<And>p. product_df = Some p \<Longrightarrow> p < length \<sigma> \<and> p < length \<tau> \<and> \<sigma> ! p = \<tau> ! p"
    and "\<And>b. brand_df = Some b \<Longrightarrow> b < length \<sigma> \<and> b < length \<tau> \<and> \<sigma> ! b = \<tau> ! b"
    and "c < length \<sigma>" "c < length \<tau>" "\<sigma> ! c = \<tau> ! c"
  shows "same_outcome (match_brands U num_str \<sigma> product_df brand_df c)
           (match_brands U num_str \<tau> product_df brand_df c)"
proof (cases product_df)
  case None
  then show ?thesis by (simp add: match_brands_def same_outcome_def)
next
  case p: (Some p)
  note ep = assms(1)[OF p]
  show ?thesis
  proof (cases "empty_frame (\<tau> ! p)")
    case True
    then show ?thesis using p ep by (simp add: match_brands_def same_outcome_def)
  next
    case np: False
    show ?thesis
    proof (cases brand_df)
      case None
      then show ?thesis using p ep by (simp add: match_brands_def same_outcome_def)
    next
      case b: (Some b)
      note eb = assms(2)[OF b]
      show ?thesis
      proof (cases "empty_frame (\<tau> ! b)")
        case True
        then show ?thesis using p b ep eb np by (simp add: match_brands_def same_outcome_def)
      next
        case nb: False
        have s: "match_brands U num_str \<sigma> product_df brand_df c = match_prepare U num_str \<sigma> p b c"
          using p b ep eb np nb by (simp add: match_brands_def)
        have t: "match_brands U num_str \<tau> product_df brand_df c = match_prepare U num_str \<tau> p b c"
          using p b np nb by (simp add: match_brands_def)
        show ?thesis unfolding s t
          using ep eb assms(3-5) by (intro match_prepare_rel) simp_all
      qed
    qed
  qed
qed


text \<open>
  C9: whatever the outcome of \<open>match_brands\<close>, every table that was in the store before
  the call is unchanged after it: the product table, the brand table and the rules among
  them. A table that is returned is a new object of the store. Run again on the store
  that the first run leaves, with the same references, the function ends as it did the
  first time: the same exception, \<open>None\<close> again, or a table with the same content.
\<close>

theorem match_brands_inputs_unchanged:
  assumes "match_brands U num_str \<sigma> product_df brand_df custom_rules_df = (out, \<sigma>')"
    and "\<forall>p. product_df = Some p \<longrightarrow> p < length \<sigma>"
    and "\<forall>b. brand_df = Some b \<longrightarrow> b < length \<sigma>"
    and "custom_rules_df < length \<sigma>"
  shows "take (length \<sigma>) \<sigma>' = \<sigma> \<and>
         (\<forall>d. out = Inr (Some d) \<longrightarrow> length \<sigma> \<le> d \<and> d < length \<sigma>') \<and>
         same_outcome (match_brands U num_str \<sigma>' product_df brand_df custom_rules_df) (out, \<sigma>')"
proof -
  note f = match_brands_frame[OF assms(1)]
  have t: "take (length \<sigma>) \<sigma>' = \<sigma>"
    using f(1) f(2) by (intro nth_equalityI) simp_all
  have "same_outcome (match_brands U num_str \<sigma>' product_df brand_df custom_rules_df)
          (match_brands U num_str \<sigma> product_df brand_df custom_rules_df)"
  proof (rule match_brands_rel)
    fix p assume "product_df = Some p"
    then have "p < length \<sigma>" using assms(2) by simp
    then show "p < length \<sigma>' \<and> p < length \<sigma> \<and> \<sigma>' ! p = \<sigma> ! p" using f(1) f(2)[of p] by simp
  next
    fix b assume "brand_df = Some b"
    then have "b < length \<sigma>" using assms(3) by simp
    then show "b < length \<sigma>' \<and> b < length \<sigma> \<and> \<sigma>' ! b = \<sigma> ! b" using f(1) f(2)[of b] by simp
  next
    show "custom_rules_df < length \<sigma>'" using assms(4) f(1) by simp
    show "custom_rules_df < length \<sigma>" by (rule assms(4))
    show "\<sigma>' ! custom_rules_df = \<sigma> ! custom_rules_df" using f(2)[OF assms(4)] .
  qed
  then show ?thesis using t f(3) assms(1) by simp
qed

theorem match_brands_inputs_unchanged_witness:
  "fst (match_brands ascii_text (\<lambda>r. [])
          [\<lparr>columns = [kw_col, vol_col], rows = [[Txt (asc ''Buy ACE pro''), Num 5], [Txt (asc ''space''), Num 3]]\<rparr>,
           \<lparr>columns = [brand_col], rows = [[Txt (asc ''Ace'')]]\<rparr>,
           \<lparr>columns = [brand_col, rule_kw_col], rows = [[Txt (asc ''B''), Txt (asc ''y, z'')]]\<rparr>]
          (Some 0) (Some 1) 2) = Inr (Some 5) \<and>
   snd (match_brands ascii_text (\<lambda>r. [])
          [\<lparr>columns = [kw_col, vol_col], rows = [[Txt (asc ''Buy ACE pro''), Num 5], [Txt (asc ''space''), Num 3]]\<rparr>,
           \<lparr>columns = [brand_col], rows = [[Txt (asc ''Ace'')]]\<rparr>,
           \<lparr>columns = [brand_col, rule_kw_col], rows = [[Txt (asc ''B''), Txt (asc ''y, z'')]]\<rparr>]
          (Some 0) (Some 1) 2) ! 5 =
     \<lparr>columns = [kw_col, vol_col, brand_col, term_col, type_col, feature_col],
      rows = [[Txt (asc ''Buy ACE pro''), Num 5, Txt (asc ''Ace''), Txt (asc ''ace''), Txt (asc branded_kws), Null],
              [Txt (asc ''space''), Num 3, Null, Null, Txt (asc non_branded_kws), Null]]\<rparr> \<and>
   take 3 (snd (match_brands ascii_text (\<lambda>r. [])
          [\<lparr>columns = [kw_col, vol_col], rows = [[Txt (asc ''Buy ACE pro''), Num 5], [Txt (asc ''space''), Num 3]]\<rparr>,
           \<lparr>columns = [brand_col], rows = [[Txt (asc ''Ace'')]]\<rparr>,
           \<lparr>columns = [brand_col, rule_kw_col], rows = [[Txt (asc ''B''), Txt (asc ''y, z'')]]\<rparr>]
          (Some 0) (Some 1) 2)) =
     [\<lparr>columns = [kw_col, vol_col], rows = [[Txt (asc ''Buy ACE pro''), Num 5], [Txt (asc ''space''), Num 3]]\<rparr>,
      \<lparr>columns = [brand_col], rows = [[Txt (asc ''Ace'')]]\<rparr>,
      \<lparr>columns = [brand_col, rule_kw_col], rows = [[Txt (asc ''B''), Txt (asc ''y, z'')]]\<rparr>]"
proof -
  let ?S = "[\<lparr>columns = [kw_col, vol_col], rows = [[Txt (asc ''Buy ACE pro''), Num 5], [Txt (asc ''space''), Num 3]]\<rparr>,
           \<lparr>columns = [brand_col], rows = [[Txt (asc ''Ace'')]]\<rparr>,
           \<lparr>columns = [brand_col, rule_kw_col], rows = [[Txt (asc ''B''), Txt (asc ''y, z'')]]\<rparr>] :: store"
  let ?R = "match_brands ascii_text (\<lambda>r. []) ?S (Some 0) (Some 1) 2"
  have a: "?R = (fst ?R, snd ?R)" by simp
  have o: "fst ?R = Inr (Some 5)" by code_simp
  have r: "snd ?R ! 5 =
     \<lparr>columns = [kw_col, vol_col, brand_col, term_col, type_col, feature_col],
      rows = [[Txt (asc ''Buy ACE pro''), Num 5, Txt (asc ''Ace''), Txt (asc ''ace''), Txt (asc branded_kws), Null],
              [Txt (asc ''space''), Num 3, Null, Null, Txt (asc non_branded_kws), Null]]\<rparr>"
    by code_simp
  have "take (length ?S) (snd ?R) = ?S"
    using match_brands_inputs_unchanged[OF a] by simp
  then show ?thesis using o r by (simp add: numeral_3_eq_3)
qed

section \<open>Properties of the brand list upload\<close>

lemma drop_dups_keys:
  "set (map (cell_of cols col) (drop_dups seen cols col rs)) = set (map (cell_of cols col) rs) - set seen"
  by (induction seen cols col rs rule: drop_dups.induct) auto

lemma drop_dups_distinct:
  "distinct (map (cell_of cols col) (drop_dups seen cols col rs))"
proof (induction seen cols col rs rule: drop_dups.induct)
  case (1 seen cols col) show ?case by simp
next
  case (2 seen cols col r rs)
  have "cell_of cols col r \<notin> set (map (cell_of cols col) (drop_dups (cell_of cols col r # seen) cols col rs))"
    unfolding drop_dups_keys by simp
  then show ?case using 2 by simp
qed

lemma drop_dups_first:
  "r \<in> set (drop_dups seen cols col rs) \<Longrightarrow>
     List.find (\<lambda>r'. cell_of cols col r' = cell_of cols col r) rs = Some r"
proof (induction seen cols col rs rule: drop_dups.induct)
  case (1 seen cols col) then show ?case by simp
next
  case (2 seen cols col r0 rs)
  show ?case
  proof (cases "cell_of cols col r0 \<in> set seen")
    case True
    with 2 have m: "r \<in> set (drop_dups seen cols col rs)" by simp
    then have "cell_of cols col r \<in> set (map (cell_of cols col) (drop_dups seen cols col rs))" by simp
    then have "cell_of cols col r \<notin> set seen" unfolding drop_dups_keys by simp
    then have "cell_of cols col r0 \<noteq> cell_of cols col r" using True by auto
    then show ?thesis using 2 True m by simp
  next
    case False
    show ?thesis
    proof (cases "r = r0")
      case True then show ?thesis by simp
    next
      case ne: False
      with 2 False have m: "r \<in> set (drop_dups (cell_of cols col r0 # seen) cols col rs)" by simp
      then have "cell_of cols col r \<in> set (map (cell_of cols col) (drop_dups (cell_of cols col r0 # seen) cols col rs))" by simp
      then have "cell_of cols col r \<noteq> cell_of cols col r0" unfolding drop_dups_keys by simp
      then show ?thesis using 2 False m by auto
    qed
  qed
qed

lemma brand_upload_keeps_first:
  assumes "brand_upload brand_df = Some out"
  shows "columns out = columns brand_df \<and>
         distinct (column out brand_col) \<and>
         set (column out brand_col) = set (column brand_df brand_col) - {Null} \<and>
         (\<forall>r \<in> set (rows out).
            List.find (\<lambda>r'. cell_of (columns brand_df) brand_col r' = cell_of (columns brand_df) brand_col r)
              (rows brand_df) = Some r)"
proof -
  let ?k = "cell_of (columns brand_df) brand_col"
  let ?na = "filter (\<lambda>r. ?k r \<noteq> Null) (rows brand_df)"
  from assms have out: "out = brand_df\<lparr>rows := drop_dups [] (columns brand_df) brand_col ?na\<rparr>"
    by (auto simp: brand_upload_def drop_duplicates_def dropna_def split: if_splits)
  have c: "columns out = columns brand_df" by (simp add: out)
  have d: "distinct (column out brand_col)"
    by (simp add: column_def out drop_dups_distinct)
  have s: "set (column out brand_col) = set (column brand_df brand_col) - {Null}"
    unfolding column_def c by (simp add: out drop_dups_keys[simplified]) auto
  have f: "List.find (\<lambda>r'. ?k r' = ?k r) (rows brand_df) = Some r" if "r \<in> set (rows out)" for r
  proof -
    from that have m: "r \<in> set (drop_dups [] (columns brand_df) brand_col ?na)" by (simp add: out)
    from drop_dups_first[OF m] have a: "List.find (\<lambda>r'. ?k r' = ?k r) ?na = Some r" .
    then have "?k r \<noteq> Null" by (auto simp: find_Some_iff dest!: nth_mem[of _ ?na])
    have "List.find (\<lambda>r'. ?k r' = ?k r) (filter (\<lambda>r. ?k r \<noteq> Null) rs) = List.find (\<lambda>r'. ?k r' = ?k r) rs" for rs
      using \<open>?k r \<noteq> Null\<close> by (induction rs) auto
    with a show ?thesis by simp
  qed
  show ?thesis using c d s f by blast
qed

text \<open>
  C5 (as amended): the stored brand list is deduplicated by the exact name, letter case
  included, and rows with a null name are excluded: no two retained rows have the same
  name, the retained names are the non-null names of the upload, and the row retained
  for a name is the first row of the upload with that name.
\<close>

theorem brand_upload_exact:
  assumes "brand_upload brand_df = Some out"
  shows "columns out = columns brand_df \<and>
         distinct (column out brand_col) \<and>
         set (column out brand_col) = set (column brand_df brand_col) - {Null} \<and>
         (\<forall>r \<in> set (rows out).
            List.find (\<lambda>r'. cell_of (columns brand_df) brand_col r' = cell_of (columns brand_df) brand_col r)
              (rows brand_df) = Some r)"
  using assms by (rule brand_upload_keeps_first)

theorem brand_upload_exact_witness:
  "brand_upload \<lparr>columns = [brand_col], rows = [[Txt ''Anker''], [Null], [Txt ''ANKER''], [Txt ''Anker'']]\<rparr> =
     Some \<lparr>columns = [brand_col], rows = [[Txt ''Anker''], [Txt ''ANKER'']]\<rparr> \<and>
   distinct (column \<lparr>columns = [brand_col], rows = [[Txt ''Anker''], [Txt ''ANKER'']]\<rparr> brand_col) \<and>
   set (column \<lparr>columns = [brand_col], rows = [[Txt ''Anker''], [Txt ''ANKER'']]\<rparr> brand_col) =
     set (column \<lparr>columns = [brand_col],
            rows = [[Txt ''Anker''], [Null], [Txt ''ANKER''], [Txt ''Anker'']]\<rparr> brand_col) - {Null}"
proof -
  have e: "brand_upload \<lparr>columns = [brand_col],
               rows = [[Txt ''Anker''], [Null], [Txt ''ANKER''], [Txt ''Anker'']]\<rparr> =
             Some \<lparr>columns = [brand_col], rows = [[Txt ''Anker''], [Txt ''ANKER'']]\<rparr>"
    by code_simp
  from brand_upload_exact[OF e] e show ?thesis by blast
qed

text \<open>
  C5 as stated does not hold: two names that differ only in letter case are both
  retained, so two retained rows have names that are equal after case folding.
\<close>

theorem brand_upload_keeps_case_variants:
  "brand_upload \<lparr>columns = [brand_col], rows = [[Txt ''Anker''], [Null], [Txt ''ANKER'']]\<rparr> =
     Some \<lparr>columns = [brand_col], rows = [[Txt ''Anker''], [Txt ''ANKER'']]\<rparr> \<and>
   \<not> distinct (map casefold_cell
        (column \<lparr>columns = [brand_col], rows = [[Txt ''Anker''], [Txt ''ANKER'']]\<rparr> brand_col))"
  by code_simp

section \<open>Running the dedup on its own output\<close>


lemma space_is_sep: "is_space c \<Longrightarrow> is_sep c"
  by (simp add: is_sep_def)

lemma of_char_upper:
  "(of_char (upper_char c) :: nat) =
     (if 97 \<le> (of_char c :: nat) \<and> (of_char c :: nat) \<le> 122 then of_char c - 32 else of_char c)"
  by (auto simp: upper_char_def Let_def)

lemma upper_char_idem: "upper_char (upper_char c) = upper_char c"
proof -
  have "(of_char (upper_char (upper_char c)) :: nat) = of_char (upper_char c)"
    unfolding of_char_upper[of "upper_char c"] by (auto simp: of_char_upper)
  then show ?thesis by (simp only: of_char_eq_iff)
qed

lemma is_sep_code: "is_sep c = (let n = (of_char c :: nat) in (9 \<le> n \<and> n \<le> 13) \<or> (28 \<le> n \<and> n \<le> 32) \<or> n = 44 \<or> n = 59)"
proof -
  have a: "(c = CHR 0x0A) = (of_char c = (10::nat))"
    using of_char_eq_iff[of c "CHR 0x0A", where 'a=nat] by simp
  have b: "(c = CHR 0x09) = (of_char c = (9::nat))"
    using of_char_eq_iff[of c "CHR 0x09", where 'a=nat] by simp
  have d: "(c = CHR '','') = (of_char c = (44::nat))"
    using of_char_eq_iff[of c "CHR '',''", where 'a=nat] by simp
  have e: "(c = CHR '';'') = (of_char c = (59::nat))"
    using of_char_eq_iff[of c "CHR '';''", where 'a=nat] by simp
  show ?thesis unfolding is_sep_def a b d e by (auto simp: is_space_def Let_def)
qed

lemma upper_char_sep: "is_sep (upper_char c) = is_sep c"
  unfolding is_sep_code Let_def of_char_upper by auto

lemma re_split_last:
  "dropWhile (\<lambda>c. \<not> is_sep c) s = [] \<Longrightarrow> re_split s = [takeWhile (\<lambda>c. \<not> is_sep c) s]"
  by (simp only: re_split.simps[of s] Let_def if_True simp_thms)

lemma re_split_more:
  "dropWhile (\<lambda>c. \<not> is_sep c) s \<noteq> [] \<Longrightarrow>
   re_split s = takeWhile (\<lambda>c. \<not> is_sep c) s #
     re_split (dropWhile is_sep (dropWhile (\<lambda>c. \<not> is_sep c) s))"
  by (simp only: re_split.simps[of s] Let_def if_False)

lemma takeWhile_sep_free: "c \<in> set (takeWhile (\<lambda>c. \<not> is_sep c) s) \<Longrightarrow> \<not> is_sep c"
  by (rule set_takeWhileD[THEN conjunct2])

lemma re_split_tokens: "t \<in> set (re_split s) \<Longrightarrow> c \<in> set t \<Longrightarrow> \<not> is_sep c"
proof (induction s rule: re_split.induct)
  case (1 s)
  show ?case
  proof (cases "dropWhile (\<lambda>c. \<not> is_sep c) s = []")
    case True
    from re_split_last[OF True] "1.prems"(1) have "t = takeWhile (\<lambda>c. \<not> is_sep c) s"
      by (simp only: list.set singleton_iff empty_iff insert_iff simp_thms)
    with "1.prems"(2) show ?thesis using takeWhile_sep_free by blast
  next
    case False
    from re_split_more[OF False] "1.prems"(1)
    have "t = takeWhile (\<lambda>c. \<not> is_sep c) s \<or>
          t \<in> set (re_split (dropWhile is_sep (dropWhile (\<lambda>c. \<not> is_sep c) s)))"
      by (simp only: list.set insert_iff)
    then show ?thesis
    proof
      assume "t = takeWhile (\<lambda>c. \<not> is_sep c) s"
      with "1.prems"(2) show ?thesis using takeWhile_sep_free by blast
    next
      assume "t \<in> set (re_split (dropWhile is_sep (dropWhile (\<lambda>c. \<not> is_sep c) s)))"
      from "1.IH"[OF refl refl False this "1.prems"(2)] show ?thesis .
    qed
  qed
qed

lemma strip_id:
  assumes "\<forall>c \<in> set t. \<not> is_space c"
  shows "strip t = t"
proof -
  have d: "dropWhile is_space xs = xs" if "\<forall>c \<in> set xs. \<not> is_space c" for xs
    using that by (cases xs) auto
  have a: "dropWhile is_space t = t" using assms by (rule d)
  have b: "dropWhile is_space (rev t) = rev t" using assms by (intro d) simp
  show ?thesis by (simp add: strip_def a b)
qed

lemma sep_free_strip: "\<forall>c \<in> set t. \<not> is_sep c \<Longrightarrow> strip t = t"
  using space_is_sep by (intro strip_id) blast

lemma upper_idem: "upper (upper t) = upper t"
  by (simp add: upper_def upper_char_idem)

lemma upper_sep_free: "\<forall>c \<in> set t. \<not> is_sep c \<Longrightarrow> \<forall>c \<in> set (upper t). \<not> is_sep c"
  by (auto simp: upper_def upper_char_sep)

lemma re_split_clean:
  assumes "asin \<in> set (re_split s)" "strip asin \<noteq> []"
  shows "clean_token (upper (strip asin))"
proof -
  from re_split_tokens[OF assms(1)] have sf: "\<forall>c \<in> set asin. \<not> is_sep c" by blast
  then have st: "strip asin = asin" by (rule sep_free_strip)
  then have "asin \<noteq> []" using assms(2) by simp
  then show ?thesis using sf st upper_sep_free[OF sf]
    by (simp add: clean_token_def upper_idem) (simp add: upper_def)
qed

lemma re_split_sep_free:
  assumes "\<forall>c \<in> set x. \<not> is_sep c"
  shows "re_split x = [x]"
proof -
  have "dropWhile (\<lambda>c. \<not> is_sep c) x = []" "takeWhile (\<lambda>c. \<not> is_sep c) x = x"
    using assms by simp_all
  then show ?thesis using re_split_last[of x] by (simp only:)
qed

lemma re_split_cons:
  assumes "\<forall>c \<in> set x. \<not> is_sep c" "rest \<noteq> []" "\<not> is_sep (hd rest)"
  shows "re_split (x @ CHR '' '' # rest) = x # re_split rest"
proof -
  have sp: "is_sep (CHR '' '')" by (simp add: is_sep_def is_space_def)
  have t: "takeWhile (\<lambda>c. \<not> is_sep c) (x @ CHR '' '' # rest) = x"
    using assms(1) sp by (simp add: takeWhile_append2 takeWhile_append1)
  have d: "dropWhile (\<lambda>c. \<not> is_sep c) (x @ CHR '' '' # rest) = CHR '' '' # rest"
    using assms(1) sp by (simp add: dropWhile_append2 dropWhile_append1)
  have r: "dropWhile is_sep (CHR '' '' # rest) = rest"
    using assms(2,3) sp by (cases rest) auto
  have "dropWhile (\<lambda>c. \<not> is_sep c) (x @ CHR '' '' # rest) \<noteq> []"
    by (simp only: d list.distinct not_False_eq_True)
  from re_split_more[OF this] show ?thesis by (simp only: t d r)
qed

lemma join_sp_hd:
  "us \<noteq> [] \<Longrightarrow> \<forall>u \<in> set us. u \<noteq> [] \<Longrightarrow> join_sp us \<noteq> [] \<and> hd (join_sp us) = hd (hd us)"
  by (induction us rule: join_sp.induct) auto

lemma join_sp_last:
  "us \<noteq> [] \<Longrightarrow> \<forall>u \<in> set us. u \<noteq> [] \<Longrightarrow> last (join_sp us) = last (last us)"
proof (induction us rule: join_sp.induct)
  case 1 then show ?case by simp
next
  case (2 x) then show ?case by simp
next
  case (3 x y ys)
  then have "join_sp (y # ys) \<noteq> []" using join_sp_hd[of "y # ys"] by simp
  then show ?case using 3 by simp
qed

lemma re_split_join:
  "us \<noteq> [] \<Longrightarrow> \<forall>u \<in> set us. clean_token u \<Longrightarrow> re_split (join_sp us) = us"
proof (induction us rule: join_sp.induct)
  case 1 then show ?case by simp
next
  case (2 x)
  then show ?case by (simp add: re_split_sep_free clean_token_def)
next
  case (3 x y ys)
  have ne: "\<forall>u \<in> set (y # ys). u \<noteq> []" using "3.prems" by (auto simp: clean_token_def)
  from join_sp_hd[OF _ ne] have h: "join_sp (y # ys) \<noteq> []" "hd (join_sp (y # ys)) = hd y" by simp_all
  have "y \<noteq> []" "\<forall>c \<in> set y. \<not> is_sep c" using "3.prems" by (auto simp: clean_token_def)
  then have "\<not> is_sep (hd y)" by (cases y) auto
  with h have hs: "\<not> is_sep (hd (join_sp (y # ys)))" by simp
  have x: "\<forall>c \<in> set x. \<not> is_sep c" using "3.prems" by (auto simp: clean_token_def)
  have "re_split (join_sp (x # y # ys)) = x # re_split (join_sp (y # ys))"
    using re_split_cons[OF x h(1) hs] by simp
  then show ?case using "3.IH" "3.prems" by simp
qed

lemma strip_join:
  assumes "us \<noteq> []" "\<forall>u \<in> set us. clean_token u"
  shows "strip (join_sp us) = join_sp us"
proof -
  have ne: "\<forall>u \<in> set us. u \<noteq> []" using assms by (auto simp: clean_token_def)
  from join_sp_hd[OF assms(1) ne] join_sp_last[OF assms(1) ne]
  have j: "join_sp us \<noteq> []" "hd (join_sp us) = hd (hd us)" "last (join_sp us) = last (last us)"
    by simp_all
  have "hd us \<in> set us" "last us \<in> set us" using assms(1) by simp_all
  then have c: "clean_token (hd us)" "clean_token (last us)" using assms(2) by blast+
  have "hd us \<noteq> []" "last us \<noteq> []" using c by (simp_all add: clean_token_def)
  then have "hd (hd us) \<in> set (hd us)" "last (last us) \<in> set (last us)" by simp_all
  then have "\<not> is_sep (hd (hd us))" "\<not> is_sep (last (last us))"
    using c by (simp_all add: clean_token_def)
  then have "\<not> is_space (hd (hd us))" "\<not> is_space (last (last us))"
    using space_is_sep by blast+
  then have a: "\<not> is_space (hd (join_sp us))" "\<not> is_space (last (join_sp us))"
    using j by simp_all
  have d1: "dropWhile is_space (join_sp us) = join_sp us"
    using j(1) a(1) by (cases "join_sp us") auto
  have h: "hd (rev (join_sp us)) = last (join_sp us)" using j(1) by (simp add: hd_rev)
  have dh: "dropWhile is_space xs = xs" if "xs \<noteq> []" "\<not> is_space (hd xs)" for xs
    using that by (cases xs) auto
  have d2: "dropWhile is_space (rev (join_sp us)) = rev (join_sp us)"
    using j(1) a(2) h by (intro dh) simp_all
  show ?thesis by (simp add: strip_def d1 d2)
qed

lemma dict_fromkeys_id: "distinct (d @ xs) \<Longrightarrow> dict_fromkeys d xs = d @ xs"
  by (induction xs arbitrary: d) auto

lemma clean_tokenD: "clean_token u \<Longrightarrow> strip u = u \<and> upper u = u \<and> u \<noteq> []"
  using sep_free_strip[of u] by (simp add: clean_token_def)

lemma asin_dedup_clean:
  assumes "us \<noteq> []" "\<forall>u \<in> set us. clean_token u" "distinct us"
  shows "asin_dedup (join_sp us) =
            Inr \<lparr>original_count = length us, unique_count = length us, unique_asins = us\<rparr>"
proof -
  have s: "strip (join_sp us) = join_sp us" using strip_join[OF assms(1,2)] .
  have n: "\<forall>u \<in> set us. u \<noteq> []" using assms(2) clean_tokenD by blast
  have ne: "join_sp us \<noteq> []" using join_sp_hd[OF assms(1) n] by simp
  have sp: "re_split (join_sp us) = us" using re_split_join[OF assms(1,2)] .
  have f: "filter (\<lambda>asin. strip asin \<noteq> []) us = us"
    using assms(2) clean_tokenD by (intro filter_True) auto
  have m: "map (\<lambda>asin. upper (strip asin)) us = us"
    using assms(2) clean_tokenD by (intro map_idI) auto
  have k: "dict_fromkeys [] us = us" using dict_fromkeys_id[of "[]" us] assms(3) by simp
  have e: "asin_dedup (join_sp us) =
     Inr \<lparr>original_count = length (map (\<lambda>asin. upper (strip asin))
                (filter (\<lambda>asin. strip asin \<noteq> []) (re_split (strip (join_sp us))))),
          unique_count = length (dict_fromkeys [] (map (\<lambda>asin. upper (strip asin))
                (filter (\<lambda>asin. strip asin \<noteq> []) (re_split (strip (join_sp us)))))),
          unique_asins = dict_fromkeys [] (map (\<lambda>asin. upper (strip asin))
                (filter (\<lambda>asin. strip asin \<noteq> []) (re_split (strip (join_sp us)))))\<rparr>"
    using ne s by (simp only: asin_dedup_def Let_def if_True not_False_eq_True simp_thms)
  show ?thesis unfolding e by (simp only: s sp f m k)
qed

lemma asin_dedup_rerun:
  assumes "asin_dedup t = Inr r"
  shows "asin_dedup (join_sp (unique_asins r)) =
     (if unique_asins r = [] then Inl EmptyInput
      else Inr \<lparr>original_count = unique_count r, unique_count = unique_count r,
                unique_asins = unique_asins r\<rparr>)"
proof -
  define l where "l = map (\<lambda>asin. upper (strip asin)) (filter (\<lambda>asin. strip asin \<noteq> []) (re_split (strip t)))"
  from assms have r: "unique_asins r = dict_fromkeys [] l" "unique_count r = length (dict_fromkeys [] l)"
    by (auto simp: asin_dedup_def Let_def l_def split: if_splits)
  have "\<forall>u \<in> set l. clean_token u" unfolding l_def using re_split_clean by auto
  then have cl: "\<forall>u \<in> set (unique_asins r). clean_token u"
    by (simp add: r dict_fromkeys_set)
  have di: "distinct (unique_asins r)" by (simp add: r dict_fromkeys_distinct)
  show ?thesis
  proof (cases "unique_asins r = []")
    case True
    have "asin_dedup [] = Inl EmptyInput" by (simp add: asin_dedup_def strip_def)
    then show ?thesis using True by simp
  next
    case False
    from asin_dedup_clean[OF False cl di] show ?thesis using False r by simp
  qed
qed

text \<open>
  C7 (as amended): when a dedup run has stored a unique list that is not empty, the
  dedup of the space-joined list stores the same list, in the same order, with the
  original count equal to the unique count. When the stored list is empty (an input of
  commas or semicolons only), the joined text is blank and the handler takes the branch
  that reports the missing input.
\<close>

theorem asin_dedup_idempotent:
  assumes "asin_dedup t = Inr r"
  shows "asin_dedup (join_sp (unique_asins r)) =
     (if unique_asins r = [] then Inl EmptyInput
      else Inr \<lparr>original_count = unique_count r, unique_count = unique_count r,
                unique_asins = unique_asins r\<rparr>)"
  using assms by (rule asin_dedup_rerun)

theorem asin_dedup_idempotent_witness:
  "asin_dedup (join_sp [''B08'', ''X1'']) =
     Inr \<lparr>original_count = 2, unique_count = 2, unique_asins = [''B08'', ''X1'']\<rparr>"
  using asin_dedup_idempotent[OF asin_dedup_example_value] by simp

text \<open>
  C7 as stated does not hold of every output of a run: the input \<open>,\<close> stores the
  empty list, and the dedup of its joined text returns no list.
\<close>

theorem asin_dedup_blank_output:
  "asin_dedup '','' = Inr \<lparr>original_count = 0, unique_count = 0, unique_asins = []\<rparr> \<and>
   asin_dedup (join_sp []) = Inl EmptyInput"
  by code_simp

section \<open>Properties of the batch merges\<close>

lemma foldl_zip_step:
  "foldl zip_step st zs =
     st\<lparr>all_data := all_data st @ List.map_filter zip_one zs,
        error_files := error_files st @ map zip_name (filter (\<lambda>z. zip_one z = None) zs)\<rparr>"
proof (induction zs arbitrary: st)
  case Nil
  show ?case by (simp add: List.map_filter_simps)
next
  case (Cons z zs)
  have s: "foldl zip_step st (z # zs) = foldl zip_step (zip_step st z) zs" by simp
  show ?case unfolding s Cons.IH
    by (cases "zip_one z") (simp_all add: zip_step_def List.map_filter_simps)
qed

lemma foldl_file_step:
  "foldl file_step st fs =
     st\<lparr>all_data := all_data st @ List.map_filter file_one fs,
        error_files := error_files st @ map file_name (filter (\<lambda>f. file_one f = None) fs),
        file_messages := file_messages st @ map file_message fs\<rparr>"
proof (induction fs arbitrary: st)
  case Nil
  show ?case by (simp add: List.map_filter_simps)
next
  case (Cons f fs)
  have s: "foldl file_step st (f # fs) = foldl file_step (file_step st f) fs" by simp
  show ?case unfolding s Cons.IH
    by (cases "file_one f") (simp_all add: file_step_def List.map_filter_simps file_message_def)
qed

lemma merge_zips_closed:
  "merge_zips zs =
     (if zs = [] then \<lparr>merged_df = None, shown = [Info]\<rparr>
      else merge_report \<lparr>all_data = List.map_filter zip_one zs,
             error_files = map zip_name (filter (\<lambda>z. zip_one z = None) zs),
             file_messages = []\<rparr>)"
  by (simp add: merge_zips_def foldl_zip_step)

lemma merge_files_closed:
  "merge_files fs =
     (if fs = [] then \<lparr>merged_df = None, shown = [Info]\<rparr>
      else merge_report \<lparr>all_data = List.map_filter file_one fs,
             error_files = map file_name (filter (\<lambda>f. file_one f = None) fs),
             file_messages = map file_message fs\<rparr>)"
  by (simp add: merge_files_def foldl_file_step)

lemma map_filter_all_None: "(\<forall>x \<in> set xs. f x = None) \<Longrightarrow> List.map_filter f xs = []"
  by (induction xs) (simp_all add: List.map_filter_simps)

lemma merge_zips_all_fail:
  assumes "zs \<noteq> []" "\<forall>z \<in> set zs. zip_one z = None"
  shows "merge_zips zs = \<lparr>merged_df = None, shown = [Warning, Error (map zip_name zs)]\<rparr>"
proof -
  have "filter (\<lambda>z. zip_one z = None) zs = zs" using assms(2) by (intro filter_True) simp
  then show ?thesis using assms
    by (simp add: merge_zips_closed merge_report_def map_filter_all_None)
qed

lemma merge_files_all_fail:
  assumes "fs \<noteq> []" "\<forall>f \<in> set fs. file_one f = None"
  shows "merge_files fs =
     \<lparr>merged_df = None, shown = map (\<lambda>f. FileError (file_name f)) fs @ [Warning, Error (map file_name fs)]\<rparr>"
proof -
  have "filter (\<lambda>f. file_one f = None) fs = fs" using assms(2) by (intro filter_True) simp
  moreover have "map file_message fs = map (\<lambda>f. FileError (file_name f)) fs"
    using assms(2) by (simp add: file_message_def)
  ultimately show ?thesis using assms
    by (simp add: merge_files_closed merge_report_def map_filter_all_None)
qed

lemma zip_one_failures:
  "content z = BadZipFile \<Longrightarrow> zip_one z = None"
  "content z = Members ms \<Longrightarrow> filter tabular ms = [] \<Longrightarrow> zip_one z = None"
  "zip_read z = None \<Longrightarrow> zip_one z = None"
  by (simp_all add: zip_one_def zip_read_def)

lemma file_one_failures: "file_read f = None \<Longrightarrow> file_one f = None"
  by (simp add: file_one_def)

lemma set_cell_lookup:
  "length cols = length r \<Longrightarrow>
   map_of (zip cols (map (\<lambda>(c, x). if c = col then v else x) (zip cols r))) c =
     (if c = col then (if col \<in> set cols then Some v else None) else map_of (zip cols r) c)"
  by (induction cols r rule: list_induct2) auto

lemma cell_of_set_cell:
  assumes "length r = length cols"
  shows "cell_of cols c (set_cell cols col v r) =
     (if c = col then (if col \<in> set cols then v else Null) else cell_of cols c r)"
  using set_cell_lookup[OF assms[symmetric], of col v c]
  by (simp add: cell_of_def set_cell_def)

lemma zip_replicate_map:
  "map (\<lambda>(r, x). f x r) (zip rs (replicate (length rs) v)) = map (f v) rs"
  by (induction rs) auto

lemma rows_set_column:
  "col \<in> set (columns df) \<Longrightarrow>
   rows (set_column df col v) = map (set_cell (columns df) col v) (rows df)"
  using zip_replicate_map[of "\<lambda>x r. set_cell (columns df) col x r" "rows df" v]
  by (simp add: set_column_def set_series_def)

lemma column_set_column:
  assumes "col \<in> set (columns df)" "list_all (\<lambda>r. length r = length (columns df)) (rows df)"
  shows "columns (set_column df col v) = columns df \<and>
         column (set_column df col v) c =
           (if c = col then replicate (length (rows df)) v else column df c)"
proof -
  have c: "columns (set_column df col v) = columns df"
    using assms(1) by (simp add: set_column_def set_series_def)
  have r: "\<forall>r \<in> set (rows df). length r = length (columns df)"
    using assms(2) by (simp add: list_all_iff)
  have "map (\<lambda>r. cell_of (columns df) c (set_cell (columns df) col v r)) (rows df) =
          (if c = col then replicate (length (rows df)) v else map (cell_of (columns df) c) (rows df))"
  proof (cases "c = col")
    case True
    have "map (\<lambda>r. cell_of (columns df) c (set_cell (columns df) col v r)) (rows df) =
            map (\<lambda>r. v) (rows df)"
      using r assms(1) True by (intro map_cong) (simp_all add: cell_of_set_cell)
    then show ?thesis using True by (simp add: map_replicate_const)
  next
    case False
    have "map (\<lambda>r. cell_of (columns df) c (set_cell (columns df) col v r)) (rows df) =
            map (cell_of (columns df) c) (rows df)"
      using r False by (intro map_cong) (simp_all add: cell_of_set_cell)
    then show ?thesis using False by simp
  qed
  then show ?thesis using c by (simp add: column_def rows_set_column[OF assms(1)] comp_def)
qed

lemma zip_collision:
  assumes "zip_read z = Some df" "time_col \<in> set (columns df)"
    "list_all (\<lambda>r. length r = length (columns df)) (rows df)"
  shows "zip_one z = Some (set_column df time_col (Txt (rsplit_stem (zip_name z)))) \<and>
         columns (set_column df time_col (Txt (rsplit_stem (zip_name z)))) = columns df \<and>
         column (set_column df time_col (Txt (rsplit_stem (zip_name z)))) c =
           (if c = time_col then replicate (length (rows df)) (Txt (rsplit_stem (zip_name z)))
            else column df c)"
  using column_set_column[OF assms(2,3)] assms(1) by (simp add: zip_one_def)

lemma file_collision:
  assumes "file_read f = Some df" "time_col \<in> set (columns df)"
  shows "file_one f = None"
  using assms by (simp add: file_one_def insert_first_def)

lemma file_no_collision:
  assumes "file_read f = Some df" "time_col \<notin> set (columns df)"
  shows "file_one f =
     Some (df\<lparr>columns := time_col # columns df,
              rows := map (\<lambda>r. Txt (rsplit_stem (file_name f)) # r) (rows df)\<rparr>)"
  using assms by (simp add: file_one_def insert_first_def)

lemma rows_concat_single: "length (rows (concat_frames [df])) = length (rows df)"
  by (simp add: concat_frames_def Let_def)

lemma merge_zips_single:
  assumes "zip_one z = Some d"
  shows "merge_zips [z] =
     \<lparr>merged_df = Some (concat_frames [d]), shown = [Success 1 (length (rows d))]\<rparr>"
  using assms
  by (simp add: merge_zips_closed merge_report_def List.map_filter_simps rows_concat_single
      del: dict_fromkeys.simps)

lemma zip_one_None: "zip_one z = None \<longleftrightarrow> zip_read z = None"
  by (simp add: zip_one_def split: option.splits)

lemma zip_one_Some:
  "zip_read z = Some df \<Longrightarrow>
   zip_one z = Some (set_column df time_col (Txt (rsplit_stem (zip_name z))))"
  by (simp add: zip_one_def)

lemma zip_read_None:
  "zip_read z = None \<longleftrightarrow>
     content z = BadZipFile \<or>
     (\<exists>ms. content z = Members ms \<and>
        (filter tabular ms = [] \<or> file_read (hd (filter tabular ms)) = None))"
proof (cases "content z")
  case BadZipFile
  then show ?thesis by (simp add: zip_read_def)
next
  case (Members ms)
  show ?thesis
  proof (cases "filter tabular ms")
    case Nil
    then show ?thesis using Members by (simp add: zip_read_def)
  next
    case (Cons f r)
    then show ?thesis using Members by (simp add: zip_read_def file_read_def)
  qed
qed

lemma file_one_None:
  "file_one f = None \<longleftrightarrow>
     file_read f = None \<or> (\<exists>df. file_read f = Some df \<and> time_col \<in> set (columns df))"
  by (cases "file_read f") (simp_all add: file_one_def insert_first_def)

text \<open>
  C8: in both merges a file that cannot be read (an unreadable archive, an archive
  without a tabular member, a member or file the codec rejects) adds its name to the
  failed files and no table to the merge. In the ZIP merge no other file fails: the
  table of every archive that can be read is merged, with its provenance column. In
  the file merge a file that can be read fails as well when its table already has the
  provenance column, and every other file that can be read is merged with the
  provenance column in front. The merge is the concatenation of the tables of the files
  that did not fail, in upload order, and the names reported as failed are exactly the
  names of the files that failed. When every file fails the merge has no table and
  shows the warning, followed by the failed names, instead of raising.
\<close>

theorem merge_failure_isolation:
  "merge_zips zs =
     (if zs = [] then \<lparr>merged_df = None, shown = [Info]\<rparr>
      else merge_report \<lparr>all_data = List.map_filter zip_one zs,
             error_files = map zip_name (filter (\<lambda>z. zip_one z = None) zs),
             file_messages = []\<rparr>) \<and>
   merge_files fs =
     (if fs = [] then \<lparr>merged_df = None, shown = [Info]\<rparr>
      else merge_report \<lparr>all_data = List.map_filter file_one fs,
             error_files = map file_name (filter (\<lambda>f. file_one f = None) fs),
             file_messages = map file_message fs\<rparr>) \<and>
   (zip_one z = None \<longleftrightarrow> zip_read z = None) \<and>
   (zip_read z = None \<longleftrightarrow>
      content z = BadZipFile \<or>
      (\<exists>ms. content z = Members ms \<and>
         (filter tabular ms = [] \<or> file_read (hd (filter tabular ms)) = None))) \<and>
   (zip_read z = Some df \<longrightarrow>
      zip_one z = Some (set_column df time_col (Txt (rsplit_stem (zip_name z))))) \<and>
   (file_one f = None \<longleftrightarrow>
      file_read f = None \<or> (\<exists>d. file_read f = Some d \<and> time_col \<in> set (columns d))) \<and>
   (file_read f = Some d \<and> time_col \<notin> set (columns d) \<longrightarrow>
      file_one f =
        Some (d\<lparr>columns := time_col # columns d,
                rows := map (\<lambda>r. Txt (rsplit_stem (file_name f)) # r) (rows d)\<rparr>)) \<and>
   (zs \<noteq> [] \<and> (\<forall>z \<in> set zs. zip_read z = None) \<longrightarrow>
      merge_zips zs = \<lparr>merged_df = None, shown = [Warning, Error (map zip_name zs)]\<rparr>) \<and>
   (fs \<noteq> [] \<and> (\<forall>f \<in> set fs. file_one f = None) \<longrightarrow>
      merge_files fs =
        \<lparr>merged_df = None,
         shown = map (\<lambda>f. FileError (file_name f)) fs @ [Warning, Error (map file_name fs)]\<rparr>)"
proof -
  have a: "zs \<noteq> [] \<and> (\<forall>z \<in> set zs. zip_read z = None) \<longrightarrow>
      merge_zips zs = \<lparr>merged_df = None, shown = [Warning, Error (map zip_name zs)]\<rparr>"
    using merge_zips_all_fail[of zs] by (simp add: zip_one_None)
  have b: "file_read f = Some d \<and> time_col \<notin> set (columns d) \<longrightarrow>
      file_one f =
        Some (d\<lparr>columns := time_col # columns d,
                rows := map (\<lambda>r. Txt (rsplit_stem (file_name f)) # r) (rows d)\<rparr>)"
    using file_no_collision[of f d] by blast
  have c: "zip_read z = Some df \<longrightarrow>
      zip_one z = Some (set_column df time_col (Txt (rsplit_stem (zip_name z))))"
    using zip_one_Some[of z df] by blast
  have e: "fs \<noteq> [] \<and> (\<forall>f \<in> set fs. file_one f = None) \<longrightarrow>
      merge_files fs =
        \<lparr>merged_df = None,
         shown = map (\<lambda>f. FileError (file_name f)) fs @ [Warning, Error (map file_name fs)]\<rparr>"
    using merge_files_all_fail[of fs] by blast
  show ?thesis
    using merge_zips_closed[of zs] merge_files_closed[of fs] zip_one_None[of z]
      zip_read_None[of z] file_one_None[of f] a b c e
    by (intro conjI) assumption+
qed

theorem merge_failure_isolation_witness:
  "merge_zips
     [\<lparr>zip_name = ''jan.zip'', content = Members
          [\<lparr>file_name = ''readme.txt'', as_csv = None, as_excel = None\<rparr>,
           \<lparr>file_name = ''Jan.CSV'', as_csv = Some \<lparr>columns = [''a'', ''b''], rows = [[Num 1, Num 2]]\<rparr>,
              as_excel = None\<rparr>]\<rparr>,
      \<lparr>zip_name = ''feb.zip'', content = BadZipFile\<rparr>,
      \<lparr>zip_name = ''mar.zip'', content = Members
          [\<lparr>file_name = ''mar.xlsx'', as_csv = None,
              as_excel = Some \<lparr>columns = [''b'', ''c''], rows = [[Num 3, Num 4]]\<rparr>\<rparr>]\<rparr>] =
     \<lparr>merged_df = Some \<lparr>columns = [''a'', ''b'', time_col, ''c''],
          rows = [[Num 1, Num 2, Txt ''jan'', Null], [Null, Num 3, Txt ''mar'', Num 4]]\<rparr>,
      shown = [Success 2 2, Error [''feb.zip'']]\<rparr> \<and>
   merge_zips
     [\<lparr>zip_name = ''feb.zip'', content = BadZipFile\<rparr>,
      \<lparr>zip_name = ''apr.zip'', content = Members
          [\<lparr>file_name = ''readme.txt'', as_csv = None, as_excel = None\<rparr>]\<rparr>] =
     \<lparr>merged_df = None, shown = [Warning, Error [''feb.zip'', ''apr.zip'']]\<rparr> \<and>
   merge_files
     [\<lparr>file_name = ''x.csv'', as_csv = None, as_excel = None\<rparr>,
      \<lparr>file_name = ''ok.csv'', as_csv = Some \<lparr>columns = [''a''], rows = [[Num 1], [Num 2]]\<rparr>,
         as_excel = None\<rparr>] =
     \<lparr>merged_df = Some \<lparr>columns = [time_col, ''a''], rows = [[Txt ''ok'', Num 1], [Txt ''ok'', Num 2]]\<rparr>,
      shown = [FileError ''x.csv'', FileSuccess ''ok.csv'', Success 1 2, Error [''x.csv'']]\<rparr> \<and>
   merge_files [\<lparr>file_name = ''x.csv'', as_csv = None, as_excel = None\<rparr>] =
     \<lparr>merged_df = None, shown = [FileError ''x.csv'', Warning, Error [''x.csv'']]\<rparr>"
proof -
  let ?dj = "\<lparr>columns = [''a'', ''b''], rows = [[Num 1, Num 2]]\<rparr> :: frame"
  let ?dm = "\<lparr>columns = [''b'', ''c''], rows = [[Num 3, Num 4]]\<rparr> :: frame"
  let ?do = "\<lparr>columns = [''a''], rows = [[Num 1], [Num 2]]\<rparr> :: frame"
  let ?readme = "\<lparr>file_name = ''readme.txt'', as_csv = None, as_excel = None\<rparr>"
  let ?jan = "\<lparr>zip_name = ''jan.zip'', content = Members
          [?readme, \<lparr>file_name = ''Jan.CSV'', as_csv = Some ?dj, as_excel = None\<rparr>]\<rparr>"
  let ?bad = "\<lparr>zip_name = ''feb.zip'', content = BadZipFile\<rparr>"
  let ?mar = "\<lparr>zip_name = ''mar.zip'', content = Members
          [\<lparr>file_name = ''mar.xlsx'', as_csv = None, as_excel = Some ?dm\<rparr>]\<rparr>"
  let ?none = "\<lparr>zip_name = ''apr.zip'', content = Members [?readme]\<rparr>"
  let ?x = "\<lparr>file_name = ''x.csv'', as_csv = None, as_excel = None\<rparr>"
  let ?ok = "\<lparr>file_name = ''ok.csv'', as_csv = Some ?do, as_excel = None\<rparr>"
  note T = merge_failure_isolation
  have rj: "zip_read ?jan = Some ?dj" and rm: "zip_read ?mar = Some ?dm" by code_simp+
  have oj: "zip_one ?jan = Some (set_column ?dj time_col (Txt (rsplit_stem (zip_name ?jan))))"
    using T[of "[]" "[]" ?jan ?dj ?x ?do] rj by blast
  have om: "zip_one ?mar = Some (set_column ?dm time_col (Txt (rsplit_stem (zip_name ?mar))))"
    using T[of "[]" "[]" ?mar ?dm ?x ?do] rm by blast
  have cb: "content ?bad = BadZipFile" by simp
  have ob1: "zip_read ?bad = None"
    using T[of "[]" "[]" ?bad ?dj ?x ?do] cb by blast
  have ob2: "zip_one ?bad = None"
    using T[of "[]" "[]" ?bad ?dj ?x ?do] ob1 by blast
  note ob = ob1 ob2
  have cn: "content ?none = Members [?readme] \<and> filter tabular [?readme] = []" by code_simp
  have on: "zip_read ?none = None"
    using T[of "[]" "[]" ?none ?dj ?x ?do] cn by blast
  have rx: "file_read ?x = None" by code_simp
  have ox: "file_one ?x = None"
    using T[of "[]" "[]" ?bad ?dj ?x ?do] rx by blast
  have ro: "file_read ?ok = Some ?do \<and> time_col \<notin> set (columns ?do)" by code_simp
  have oo: "file_one ?ok =
              Some (?do\<lparr>columns := time_col # columns ?do,
                      rows := map (\<lambda>r. Txt (rsplit_stem (file_name ?ok)) # r) (rows ?do)\<rparr>)"
    using T[of "[]" "[]" ?bad ?dj ?ok ?do] ro by blast
  have m1: "merge_zips [?jan, ?bad, ?mar] =
      merge_report \<lparr>all_data = List.map_filter zip_one [?jan, ?bad, ?mar],
             error_files = map zip_name (filter (\<lambda>z. zip_one z = None) [?jan, ?bad, ?mar]),
             file_messages = []\<rparr>"
    using T[of "[?jan, ?bad, ?mar]" "[]" ?bad ?dj ?x ?do] by simp
  have e1: "merge_report
       \<lparr>all_data = [set_column ?dj time_col (Txt (rsplit_stem (zip_name ?jan))),
                    set_column ?dm time_col (Txt (rsplit_stem (zip_name ?mar)))],
        error_files = [''feb.zip''], file_messages = []\<rparr> =
     \<lparr>merged_df = Some \<lparr>columns = [''a'', ''b'', time_col, ''c''],
          rows = [[Num 1, Num 2, Txt ''jan'', Null], [Null, Num 3, Txt ''mar'', Num 4]]\<rparr>,
      shown = [Success 2 2, Error [''feb.zip'']]\<rparr>"
    by code_simp
  have r1: "merge_zips [?jan, ?bad, ?mar] =
     \<lparr>merged_df = Some \<lparr>columns = [''a'', ''b'', time_col, ''c''],
          rows = [[Num 1, Num 2, Txt ''jan'', Null], [Null, Num 3, Txt ''mar'', Num 4]]\<rparr>,
      shown = [Success 2 2, Error [''feb.zip'']]\<rparr>"
    unfolding m1 using e1 by (simp add: List.map_filter_simps oj om ob)
  have h2: "[?bad, ?none] \<noteq> [] \<and> (\<forall>z \<in> set [?bad, ?none]. zip_read z = None)"
    using ob on by simp
  have r2: "merge_zips [?bad, ?none] =
             \<lparr>merged_df = None, shown = [Warning, Error (map zip_name [?bad, ?none])]\<rparr>"
    using T[of "[?bad, ?none]" "[]" ?bad ?dj ?x ?do] h2 by blast
  have m3: "merge_files [?x, ?ok] =
      merge_report \<lparr>all_data = List.map_filter file_one [?x, ?ok],
             error_files = map file_name (filter (\<lambda>f. file_one f = None) [?x, ?ok]),
             file_messages = map file_message [?x, ?ok]\<rparr>"
    using T[of "[]" "[?x, ?ok]" ?bad ?dj ?x ?do] by simp
  have e3: "merge_report
       \<lparr>all_data = [?do\<lparr>columns := time_col # columns ?do,
                      rows := map (\<lambda>r. Txt (rsplit_stem (file_name ?ok)) # r) (rows ?do)\<rparr>],
        error_files = [''x.csv''], file_messages = [FileError ''x.csv'', FileSuccess ''ok.csv'']\<rparr> =
     \<lparr>merged_df = Some \<lparr>columns = [time_col, ''a''], rows = [[Txt ''ok'', Num 1], [Txt ''ok'', Num 2]]\<rparr>,
      shown = [FileError ''x.csv'', FileSuccess ''ok.csv'', Success 1 2, Error [''x.csv'']]\<rparr>"
    by code_simp
  have r3: "merge_files [?x, ?ok] =
     \<lparr>merged_df = Some \<lparr>columns = [time_col, ''a''], rows = [[Txt ''ok'', Num 1], [Txt ''ok'', Num 2]]\<rparr>,
      shown = [FileError ''x.csv'', FileSuccess ''ok.csv'', Success 1 2, Error [''x.csv'']]\<rparr>"
    unfolding m3 using e3 by (simp add: List.map_filter_simps ox oo file_message_def)
  have h4: "[?x] \<noteq> [] \<and> (\<forall>f \<in> set [?x]. file_one f = None)"
    using ox by simp
  have r4: "merge_files [?x] =
             \<lparr>merged_df = None,
              shown = map (\<lambda>f. FileError (file_name f)) [?x] @ [Warning, Error (map file_name [?x])]\<rparr>"
    using T[of "[]" "[?x]" ?bad ?dj ?x ?do] h4 by blast
  show ?thesis using r1 r2 r3 r4 by simp
qed

text \<open>
  A file that is read without error is still excluded by the file merge when its table
  has the provenance column already: the merge does not run over all the files that
  can be read.
\<close>

theorem merge_files_excludes_readable_file:
  "file_read \<lparr>file_name = ''a.csv'',
        as_csv = Some \<lparr>columns = [time_col, ''v''], rows = [[Txt ''2023'', Num 7]]\<rparr>,
        as_excel = None\<rparr> =
     Some \<lparr>columns = [time_col, ''v''], rows = [[Txt ''2023'', Num 7]]\<rparr> \<and>
   merge_files
     [\<lparr>file_name = ''a.csv'',
        as_csv = Some \<lparr>columns = [time_col, ''v''], rows = [[Txt ''2023'', Num 7]]\<rparr>,
        as_excel = None\<rparr>,
      \<lparr>file_name = ''b.csv'', as_csv = Some \<lparr>columns = [''v''], rows = [[Num 8]]\<rparr>,
        as_excel = None\<rparr>] =
     \<lparr>merged_df = Some \<lparr>columns = [time_col, ''v''], rows = [[Txt ''b'', Num 8]]\<rparr>,
      shown = [FileError ''a.csv'', FileSuccess ''b.csv'', Success 1 1, Error [''a.csv'']]\<rparr>"
  by code_simp

lemma merge_files_single_fail:
  assumes "file_one f = None"
  shows "merge_files [f] =
     \<lparr>merged_df = None, shown = [FileError (file_name f), Warning, Error [file_name f]]\<rparr>"
  using merge_files_all_fail[of "[f]"] assms by simp

text \<open>
  C10: for a table that already has the provenance column, the ZIP merge keeps the
  columns as they are and overwrites that column with the label in every row, leaves
  the other columns alone and shows no error; the file merge fails on the insertion,
  so the file is reported as failed and contributes no table.
\<close>

theorem provenance_column_collision:
  assumes "time_col \<in> set (columns df)"
    and "list_all (\<lambda>r. length r = length (columns df)) (rows df)"
  shows "(zip_read z = Some df \<longrightarrow>
            zip_one z = Some (set_column df time_col (Txt (rsplit_stem (zip_name z)))) \<and>
            columns (set_column df time_col (Txt (rsplit_stem (zip_name z)))) = columns df \<and>
            column (set_column df time_col (Txt (rsplit_stem (zip_name z)))) c =
              (if c = time_col then replicate (length (rows df)) (Txt (rsplit_stem (zip_name z)))
               else column df c) \<and>
            merge_zips [z] =
              \<lparr>merged_df = Some (concat_frames [set_column df time_col (Txt (rsplit_stem (zip_name z)))]),
               shown = [Success 1 (length (rows df))]\<rparr>) \<and>
         (file_read f = Some df \<longrightarrow>
            file_one f = None \<and>
            merge_files [f] =
              \<lparr>merged_df = None, shown = [FileError (file_name f), Warning, Error [file_name f]]\<rparr>)"
proof -
  have l: "length (rows (set_column df time_col v)) = length (rows df)" for v
    by (simp add: rows_set_column[OF assms(1)])
  have "zip_read z = Some df \<Longrightarrow>
          merge_zips [z] =
            \<lparr>merged_df = Some (concat_frames [set_column df time_col (Txt (rsplit_stem (zip_name z)))]),
             shown = [Success 1 (length (rows df))]\<rparr>"
    using merge_zips_single[of z "set_column df time_col (Txt (rsplit_stem (zip_name z)))"]
      zip_collision[OF _ assms] by (simp only: l)
  then show ?thesis
    using zip_collision[OF _ assms, of z c] file_collision[OF _ assms(1), of f]
      merge_files_single_fail[of f]
    by blast
qed

theorem provenance_column_collision_witness:
  "merge_zips [\<lparr>zip_name = ''2024-01.zip'', content = Members
      [\<lparr>file_name = ''t.csv'',
        as_csv = Some \<lparr>columns = [''a'', time_col], rows = [[Num 1, Txt ''old''], [Num 2, Null]]\<rparr>,
        as_excel = None\<rparr>]\<rparr>] =
     \<lparr>merged_df = Some \<lparr>columns = [''a'', time_col],
          rows = [[Num 1, Txt ''2024-01''], [Num 2, Txt ''2024-01'']]\<rparr>,
      shown = [Success 1 2]\<rparr> \<and>
   merge_files [\<lparr>file_name = ''2024-01.csv'',
        as_csv = Some \<lparr>columns = [''a'', time_col], rows = [[Num 1, Txt ''old''], [Num 2, Null]]\<rparr>,
        as_excel = None\<rparr>] =
     \<lparr>merged_df = None,
      shown = [FileError ''2024-01.csv'', Warning, Error [''2024-01.csv'']]\<rparr>"
proof -
  let ?df = "\<lparr>columns = [''a'', time_col], rows = [[Num 1, Txt ''old''], [Num 2, Null]]\<rparr>"
  let ?z = "\<lparr>zip_name = ''2024-01.zip'', content = Members
      [\<lparr>file_name = ''t.csv'', as_csv = Some ?df, as_excel = None\<rparr>]\<rparr>"
  let ?f = "\<lparr>file_name = ''2024-01.csv'', as_csv = Some ?df, as_excel = None\<rparr>"
  have h1: "time_col \<in> set (columns ?df)" by simp
  have h2: "list_all (\<lambda>r. length r = length (columns ?df)) (rows ?df)" by simp
  have z: "zip_read ?z = Some ?df" by code_simp
  have f: "file_read ?f = Some ?df" by code_simp
  have c: "concat_frames [set_column ?df time_col (Txt (rsplit_stem (zip_name ?z)))] =
             \<lparr>columns = [''a'', time_col],
              rows = [[Num 1, Txt ''2024-01''], [Num 2, Txt ''2024-01'']]\<rparr>"
    by code_simp
  from provenance_column_collision[OF h1 h2, of ?z time_col ?f] z f c
  show ?thesis by simp
qed

end
